(* ===== verification/Tinct_Prelude.thy ===== *)
theory Tinct_Prelude
  imports Main "HOL-Library.Word" "HOL-Library.Sublist"
begin

text \<open>
  Shared vocabulary of the development. A Rust \<open>char\<close> is a Unicode scalar value and is
  modelled by its code point, a \<open>nat\<close>; a \<open>String\<close> or \<open>&str\<close> is the list of its
  characters (\<open>str\<close>). Character and string literals of the source are written
  \<open>uc CHR ''x''\<close> and \<open>us ''xyz''\<close>. A Rust \<open>Result\<close> is a sum with the error on
  the left and \<open>?\<close> is \<open>bindE\<close>. The file also holds the interface of a
  write-once cell, the hint collections of the component proofs, and generic lemmas on
  lists and sums.
\<close>

section \<open>Text\<close>

type_synonym uchar = nat
type_synonym str = "uchar list"

abbreviation uc :: "char \<Rightarrow> uchar" where
  "uc c \<equiv> of_char c"

abbreviation us :: "string \<Rightarrow> str" where
  "us s \<equiv> map of_char s"

abbreviation NL :: uchar where "NL \<equiv> 10"
abbreviation CR :: uchar where "CR \<equiv> 13"
abbreviation TAB :: uchar where "TAB \<equiv> 9"
abbreviation SPACE :: uchar where "SPACE \<equiv> 32"
abbreviation DQ :: uchar where "DQ \<equiv> 34"
abbreviation BSLASH :: uchar where "BSLASH \<equiv> 92"

section \<open>Results\<close>

definition bindE :: "'e + 'a \<Rightarrow> ('a \<Rightarrow> 'e + 'b) \<Rightarrow> 'e + 'b" where
  "bindE r f = (case r of Inl e \<Rightarrow> Inl e | Inr a \<Rightarrow> f a)"

lemma bindE_Inl [simp]: "bindE (Inl e) f = Inl e"
  by (simp add: bindE_def)

lemma bindE_Inr [simp]: "bindE (Inr a) f = f a"
  by (simp add: bindE_def)

lemma bindE_eq_Inr_iff: "bindE r f = Inr b \<longleftrightarrow> (\<exists>a. r = Inr a \<and> f a = Inr b)"
  by (cases r) auto

lemma bindE_eq_Inl_iff: "bindE r f = Inl e \<longleftrightarrow> r = Inl e \<or> (\<exists>a. r = Inr a \<and> f a = Inl e)"
  by (cases r) auto

section \<open>Hint collections\<close>

named_theorems lex_defs "definitions of the lexer's small operations"
named_theorems consume "scanners never lengthen the remaining input"
named_theorems keeps "operations that leave a field or an invariant unchanged"

section \<open>Lists\<close>

definition nth_opt :: "'a list \<Rightarrow> nat \<Rightarrow> 'a option" where
  "nth_opt xs i = (if i < length xs then Some (xs ! i) else None)"

lemma nth_opt_Nil [simp]: "nth_opt [] i = None"
  by (simp add: nth_opt_def)

lemma nth_opt_Cons_0 [simp]: "nth_opt (x # xs) 0 = Some x"
  by (simp add: nth_opt_def)

lemma nth_opt_Cons_Suc [simp]: "nth_opt (x # xs) (Suc i) = nth_opt xs i"
  by (simp add: nth_opt_def)

lemma nth_opt_Cons_numeral [simp]:
  "nth_opt (x # xs) (numeral k) = nth_opt xs (pred_numeral k)"
  by (simp add: nth_opt_def)

lemma nth_opt_Cons_1 [simp]: "nth_opt (x # xs) 1 = nth_opt xs 0"
  by (simp add: nth_opt_def)

lemma nth_opt_Some_iff: "nth_opt xs i = Some x \<longleftrightarrow> i < length xs \<and> xs ! i = x"
  by (auto simp: nth_opt_def)

lemma nth_opt_None_iff: "nth_opt xs i = None \<longleftrightarrow> length xs \<le> i"
  by (auto simp: nth_opt_def)

text \<open>The characters between two positions, as a Rust slice \<open>&input[s..e]\<close>.\<close>

definition slice :: "nat \<Rightarrow> nat \<Rightarrow> 'a list \<Rightarrow> 'a list" where
  "slice s e xs = take (e - s) (drop s xs)"

lemma slice_prefix_suffix:
  assumes "xs = pre @ mid @ suf"
  shows "slice (length pre) (length pre + length mid) xs = mid"
  using assms by (simp add: slice_def)

lemma slice_empty [simp]: "slice s s xs = []"
  by (simp add: slice_def)

section \<open>Write-once cells\<close>

text \<open>
  The interface of a cell that is set at most once (\<open>OnceLock\<close>, \<open>OnceCell\<close>): reading
  gives the stored value, the first write is kept, and later writes change nothing and
  are reported.
\<close>

locale write_once =
  fixes get :: "'c \<Rightarrow> 'a option"
    and put :: "'a \<Rightarrow> 'c \<Rightarrow> bool \<times> 'c"
  assumes put_empty: "get c = None \<Longrightarrow> fst (put a c) \<and> get (snd (put a c)) = Some a"
    and put_full: "get c = Some b \<Longrightarrow> \<not> fst (put a c) \<and> snd (put a c) = c"
begin

lemma get_mono: "get c = Some b \<Longrightarrow> get (snd (put a c)) = Some b"
  using put_full by simp

lemma get_after_put: "get (snd (put a c)) = Some (case get c of None \<Rightarrow> a | Some b \<Rightarrow> b)"
  by (cases "get c") (simp_all add: put_empty put_full)

lemma put_accepted_iff: "fst (put a c) \<longleftrightarrow> get c = None"
  by (cases "get c") (simp_all add: put_empty put_full)

lemma puts_keep: "get c = Some b \<Longrightarrow> fold (\<lambda>a c. snd (put a c)) as c = c"
  by (induction as arbitrary: c) (simp_all add: put_full)

lemma first_put_wins:
  "get c = None \<Longrightarrow> get (fold (\<lambda>a c. snd (put a c)) (a # as) c) = Some a"
  by (simp add: put_empty puts_keep)

end

text \<open>\<open>std::sync::OnceLock\<close>: the cell is an option.\<close>

definition once_set :: "'a \<Rightarrow> 'a option \<Rightarrow> bool \<times> 'a option" where
  "once_set a c = (case c of None \<Rightarrow> (True, Some a) | Some b \<Rightarrow> (False, Some b))"

interpretation once_lock: write_once "\<lambda>c. c" once_set
  by unfold_locales (auto simp: once_set_def)

end
