(* ===== verification/Rust_Std.thy ===== *)
theory Rust_Std
  imports Tinct_Prelude
begin

text \<open>
  What the source uses of the Rust standard library: the ASCII and white-space character
  classes, UTF-8 lengths, \<open>str::parse\<close> and \<open>from_str_radix\<close> for 64-bit integers,
  \<open>str::parse::<f64>\<close> with round-to-nearest-even, decimal printing, and the string
  operations \<open>lines\<close>, \<open>trim\<close>, \<open>find\<close> and \<open>join\<close>.
\<close>

section \<open>Characters\<close>

definition is_ascii_digit :: "uchar \<Rightarrow> bool" where
  "is_ascii_digit c \<longleftrightarrow> 48 \<le> c \<and> c \<le> 57"

definition is_ascii_alphabetic :: "uchar \<Rightarrow> bool" where
  "is_ascii_alphabetic c \<longleftrightarrow> 65 \<le> c \<and> c \<le> 90 \<or> 97 \<le> c \<and> c \<le> 122"

definition is_ascii_alphanumeric :: "uchar \<Rightarrow> bool" where
  "is_ascii_alphanumeric c \<longleftrightarrow> is_ascii_digit c \<or> is_ascii_alphabetic c"

definition is_ascii_hexdigit :: "uchar \<Rightarrow> bool" where
  "is_ascii_hexdigit c \<longleftrightarrow> is_ascii_digit c \<or> 65 \<le> c \<and> c \<le> 70 \<or> 97 \<le> c \<and> c \<le> 102"

text \<open>\<open>char::is_whitespace\<close>: the Unicode property \<open>White_Space\<close>.\<close>

definition is_whitespace :: "uchar \<Rightarrow> bool" where
  "is_whitespace c \<longleftrightarrow> 9 \<le> c \<and> c \<le> 13 \<or> c = 32 \<or> c = 0x85 \<or> c = 0xA0 \<or> c = 0x1680
     \<or> 0x2000 \<le> c \<and> c \<le> 0x200A \<or> c = 0x2028 \<or> c = 0x2029 \<or> c = 0x202F \<or> c = 0x205F
     \<or> c = 0x3000"

definition utf8_len :: "uchar \<Rightarrow> nat" where
  "utf8_len c = (if c < 0x80 then 1 else if c < 0x800 then 2 else if c < 0x10000 then 3 else 4)"

definition byte_length :: "str \<Rightarrow> nat" where
  "byte_length s = sum_list (map utf8_len s)"

lemma byte_length_simps [simp]:
  "byte_length [] = 0" "byte_length (c # s) = utf8_len c + byte_length s"
  "byte_length (s @ t) = byte_length s + byte_length t"
  by (simp_all add: byte_length_def)

section \<open>Integer parsing\<close>

datatype int_error = IntEmpty | IntInvalidDigit | IntPosOverflow | IntNegOverflow

text \<open>\<open>char::to_digit(radix)\<close>.\<close>

definition to_digit :: "nat \<Rightarrow> uchar \<Rightarrow> nat option" where
  "to_digit radix c =
     (let d = (if is_ascii_digit c then Some (c - 48)
               else if 97 \<le> c \<and> c \<le> 122 then Some (c - 97 + 10)
               else if 65 \<le> c \<and> c \<le> 90 then Some (c - 65 + 10) else None)
      in case d of None \<Rightarrow> None | Some n \<Rightarrow> if n < radix then Some n else None)"

text \<open>
  The digit loop of \<open>from_str_radix\<close>: \<open>sg\<close> is 1 or -1, and the accumulator is checked
  against the bounds of the integer type after every digit.
\<close>

fun acc_digits :: "nat \<Rightarrow> int \<Rightarrow> int \<Rightarrow> int \<Rightarrow> int \<Rightarrow> str \<Rightarrow> int_error + int" where
  "acc_digits radix lo hi sg acc [] = Inr acc"
| "acc_digits radix lo hi sg acc (c # cs) =
     (case to_digit radix c of
        None \<Rightarrow> Inl IntInvalidDigit
      | Some d \<Rightarrow>
          let v = acc * int radix + sg * int d
          in if v > hi then Inl IntPosOverflow
             else if v < lo then Inl IntNegOverflow
             else acc_digits radix lo hi sg v cs)"

definition i64_min :: int where "i64_min = - (2 ^ 63)"
definition i64_max :: int where "i64_max = 2 ^ 63 - 1"
definition u64_max :: int where "u64_max = 2 ^ 64 - 1"

definition i64_from_str_radix :: "str \<Rightarrow> nat \<Rightarrow> int_error + int" where
  "i64_from_str_radix s radix =
     (case s of
        [] \<Rightarrow> Inl IntEmpty
      | c # cs \<Rightarrow>
          if cs = [] \<and> (c = uc CHR ''+'' \<or> c = uc CHR ''-'') then Inl IntInvalidDigit
          else if c = uc CHR ''-'' then acc_digits radix i64_min i64_max (-1) 0 cs
          else if c = uc CHR ''+'' then acc_digits radix i64_min i64_max 1 0 cs
          else acc_digits radix i64_min i64_max 1 0 s)"

definition u64_from_str_radix :: "str \<Rightarrow> nat \<Rightarrow> int_error + int" where
  "u64_from_str_radix s radix =
     (case s of
        [] \<Rightarrow> Inl IntEmpty
      | c # cs \<Rightarrow>
          if cs = [] \<and> (c = uc CHR ''+'' \<or> c = uc CHR ''-'') then Inl IntInvalidDigit
          else if c = uc CHR ''+'' then acc_digits radix 0 u64_max 1 0 cs
          else acc_digits radix 0 u64_max 1 0 s)"

definition parse_i64 :: "str \<Rightarrow> int_error + int" where
  "parse_i64 s = i64_from_str_radix s 10"

definition parse_u64 :: "str \<Rightarrow> int_error + int" where
  "parse_u64 s = u64_from_str_radix s 10"

lemma acc_digits_range:
  "acc_digits radix lo hi sg acc cs = Inr v \<Longrightarrow> lo \<le> acc \<Longrightarrow> acc \<le> hi \<Longrightarrow> lo \<le> v \<and> v \<le> hi"
  by (induction cs arbitrary: acc) (auto simp: Let_def split: option.splits if_splits)

declare acc_digits.simps(2) [simp del]

lemma parse_i64_range: "i64_from_str_radix s radix = Inr v \<Longrightarrow> i64_min \<le> v \<and> v \<le> i64_max"
proof -
  have b: "i64_min \<le> 0" "0 \<le> i64_max" by (simp_all add: i64_min_def i64_max_def)
  assume "i64_from_str_radix s radix = Inr v"
  then show ?thesis
    using b acc_digits_range [of radix i64_min i64_max _ 0 _ v]
    by (auto simp: i64_from_str_radix_def split: list.splits if_splits)
qed

lemma parse_u64_range: "u64_from_str_radix s radix = Inr v \<Longrightarrow> 0 \<le> v \<and> v \<le> u64_max"
proof -
  have b: "0 \<le> u64_max" by (simp add: u64_max_def)
  assume "u64_from_str_radix s radix = Inr v"
  then show ?thesis
    using b acc_digits_range [of radix 0 u64_max _ 0 _ v]
    by (auto simp: u64_from_str_radix_def split: list.splits if_splits)
qed

section \<open>Floating-point parsing\<close>

text \<open>
  An \<open>f64\<close> is its IEEE 754 bit pattern. \<open>f64_bits p q\<close> is the pattern of the double
  nearest to \<open>p / q\<close>, ties to even: \<open>e\<close> is the binary exponent of the quotient, clamped
  at the subnormal range, \<open>m\<close> the significand rounded to an integer; a significand that
  rounds up to the next power of two carries into the exponent field, and what lies past
  the largest finite double is infinity.
\<close>

type_synonym f64 = "64 word"

fun nat_log2 :: "nat \<Rightarrow> nat" where
  "nat_log2 n = (if n < 2 then 0 else Suc (nat_log2 (n div 2)))"

declare nat_log2.simps [simp del]

definition f64_bits :: "nat \<Rightarrow> nat \<Rightarrow> nat" where
  "f64_bits p q =
     (if p = 0 then 0
      else let k = int (nat_log2 p) - int (nat_log2 q);
               ge = (if 0 \<le> k then q * 2 ^ nat k \<le> p else q \<le> p * 2 ^ nat (- k));
               e = max (if ge then k else k - 1) (- 1022);
               s = 52 - e;
               num = (if 0 \<le> s then p * 2 ^ nat s else p);
               den = (if 0 \<le> s then q else q * 2 ^ nat (- s));
               m0 = num div den;
               r = num mod den;
               m = (if 2 * r > den \<or> 2 * r = den \<and> odd m0 then Suc m0 else m0)
           in min (nat (e + 1022) * 2 ^ 52 + m) (0x7FF * 2 ^ 52))"

definition digits_value :: "str \<Rightarrow> nat" where
  "digits_value ds = foldl (\<lambda>acc c. 10 * acc + (c - 48)) 0 ds"

definition f64_of_decimal :: "bool \<Rightarrow> nat \<Rightarrow> int \<Rightarrow> f64" where
  "f64_of_decimal neg m e =
     word_of_nat ((if neg then 2 ^ 63 else 0)
       + (if 0 \<le> e then f64_bits (m * 10 ^ nat e) 1 else f64_bits m (10 ^ nat (- e))))"

definition split_sign :: "str \<Rightarrow> bool \<times> str" where
  "split_sign s =
     (case s of
        [] \<Rightarrow> (False, [])
      | c # cs \<Rightarrow> if c = uc CHR ''-'' then (True, cs) else if c = uc CHR ''+'' then (False, cs) else (False, s))"

definition ascii_lower :: "uchar \<Rightarrow> uchar" where
  "ascii_lower c = (if 65 \<le> c \<and> c \<le> 90 then c + 32 else c)"

text \<open>The exponent part of a number: nothing, or \<open>e\<close> or \<open>E\<close>, a sign and digits to the end.\<close>

definition parse_exponent :: "str \<Rightarrow> int option" where
  "parse_exponent s =
     (case s of
        [] \<Rightarrow> Some 0
      | c # cs \<Rightarrow>
          if ascii_lower c = uc CHR ''e'' then
            (let (neg, ds) = split_sign cs
             in if ds \<noteq> [] \<and> list_all is_ascii_digit ds
                then Some ((if neg then -1 else 1) * int (digits_value ds)) else None)
          else None)"

definition parse_f64 :: "str \<Rightarrow> f64 option" where
  "parse_f64 s =
     (let (neg, s1) = split_sign s;
          ip = takeWhile is_ascii_digit s1;
          s2 = dropWhile is_ascii_digit s1;
          dotted = (case s2 of [] \<Rightarrow> False | c # _ \<Rightarrow> c = uc CHR ''.'');
          fp = (if dotted then takeWhile is_ascii_digit (tl s2) else []);
          s3 = (if dotted then dropWhile is_ascii_digit (tl s2) else s2);
          word = map ascii_lower s1
      in if word = us ''inf'' \<or> word = us ''infinity''
         then Some (word_of_nat ((if neg then 2 ^ 63 else 0) + 0x7FF * 2 ^ 52))
         else if word = us ''nan''
         then Some (word_of_nat ((if neg then 2 ^ 63 else 0) + 0x7FF8 * 2 ^ 48))
         else if ip = [] \<and> fp = [] then None
         else map_option (\<lambda>e. f64_of_decimal neg (digits_value (ip @ fp)) (e - int (length fp)))
                (parse_exponent s3))"

section \<open>Decimal printing\<close>

text \<open>\<open>to_string\<close> on integers: decimal digits without leading zeros.\<close>

fun nat_to_str :: "nat \<Rightarrow> str" where
  "nat_to_str n = (if n < 10 then [48 + n] else nat_to_str (n div 10) @ [48 + n mod 10])"

declare nat_to_str.simps [simp del]

definition int_to_str :: "int \<Rightarrow> str" where
  "int_to_str n = (if n < 0 then uc CHR ''-'' # nat_to_str (nat (- n)) else nat_to_str (nat n))"

lemma nat_to_str_digits: "c \<in> set (nat_to_str n) \<Longrightarrow> is_ascii_digit c"
proof (induction n rule: nat_to_str.induct)
  case (1 n)
  then show ?case
    by (cases "n < 10") (auto simp: nat_to_str.simps [of n] is_ascii_digit_def)
qed

lemma nat_to_str_nonempty [simp]: "nat_to_str n \<noteq> []"
  by (simp add: nat_to_str.simps [of n])

lemma hd_nat_to_str: "10 \<le> n \<Longrightarrow> hd (nat_to_str n) \<noteq> 48"
proof (induction n rule: nat_to_str.induct)
  case (1 n)
  then show ?case
    by (cases "n div 10 < 10") (auto simp: nat_to_str.simps [of n] nat_to_str.simps [of "n div 10"] hd_append)
qed

section \<open>Strings\<close>

text \<open>
  \<open>str::lines\<close>: a line ends at a newline, a carriage return before the newline is dropped,
  and nothing follows a final newline. \<open>cur\<close> is the line read so far.
\<close>

definition strip_cr :: "str \<Rightarrow> str" where
  "strip_cr s = (if s \<noteq> [] \<and> last s = CR then butlast s else s)"

fun lines_from :: "str \<Rightarrow> str \<Rightarrow> str list" where
  "lines_from cur [] = (if cur = [] then [] else [cur])"
| "lines_from cur (c # cs) =
     (if c = NL then strip_cr cur # lines_from [] cs else lines_from (cur @ [c]) cs)"

definition str_lines :: "str \<Rightarrow> str list" where
  "str_lines s = lines_from [] s"

definition trim_end_with :: "(uchar \<Rightarrow> bool) \<Rightarrow> str \<Rightarrow> str" where
  "trim_end_with p s = rev (dropWhile p (rev s))"

definition str_trim :: "str \<Rightarrow> str" where
  "str_trim s = trim_end_with is_whitespace (dropWhile is_whitespace s)"

text \<open>\<open>str::find\<close>: the position of the first occurrence of the pattern.\<close>

fun str_find :: "str \<Rightarrow> str \<Rightarrow> nat option" where
  "str_find pat [] = (if pat = [] then Some 0 else None)"
| "str_find pat (c # cs) =
     (if prefix pat (c # cs) then Some 0 else map_option Suc (str_find pat cs))"

text \<open>\<open>[..].join(sep)\<close>.\<close>

fun join_str :: "str \<Rightarrow> str list \<Rightarrow> str" where
  "join_str sep [] = []"
| "join_str sep [x] = x"
| "join_str sep (x # y # xs) = x @ sep @ join_str sep (y # xs)"

text \<open>
  The prefix \<open>&s[..n]\<close> of a byte length; \<open>None\<close> is the panic where \<open>n\<close> is past the end or
  inside a character.
\<close>

fun byte_prefix :: "nat \<Rightarrow> str \<Rightarrow> str option" where
  "byte_prefix n [] = (if n = 0 then Some [] else None)"
| "byte_prefix n (c # cs) =
     (if n = 0 then Some []
      else if n < utf8_len c then None
      else map_option (\<lambda>p. c # p) (byte_prefix (n - utf8_len c) cs))"

lemma utf8_len_pos [simp]: "0 < utf8_len c"
  by (simp add: utf8_len_def)

lemma byte_prefix_append: "byte_prefix (byte_length p) (p @ s) = Some p"
proof (induction p)
  case Nil
  show ?case by (cases s) simp_all
qed simp

lemma lines_from_no_newline: "NL \<notin> set s \<Longrightarrow> lines_from cur s = (if cur @ s = [] then [] else [cur @ s])"
  by (induction s arbitrary: cur) auto

lemma lines_from_line:
  "NL \<notin> set l \<Longrightarrow> lines_from cur (l @ NL # s) = strip_cr (cur @ l) # lines_from [] s"
  by (induction l arbitrary: cur) auto

lemma str_find_bound: "str_find pat s = Some i \<Longrightarrow> i + length pat \<le> length s \<and> take (length pat) (drop i s) = pat"
proof (induction s arbitrary: i)
  case (Cons c cs)
  show ?case
  proof (cases "prefix pat (c # cs)")
    case True
    then obtain zs where z: "c # cs = pat @ zs" by (auto simp: prefix_def)
    from Cons.prems True have "i = 0" by simp
    then show ?thesis unfolding z by simp
  next
    case False
    with Cons.prems obtain j where "str_find pat cs = Some j" "i = Suc j" by (auto split: if_splits)
    with Cons.IH show ?thesis by auto
  qed
qed (auto split: if_splits)

end
