(* ===== verification/Lexer.thy ===== *)
theory Lexer
  imports Rust_Std
begin

text \<open>
  The tokenizer of \<^verbatim>\<open>src/lexer.rs\<close>: tokens, spans, the \<open>Lexer\<close> state as a record,
  one definition per method, and \<open>tokenize\<close>. The iterator pair \<open>chars\<close>/\<open>current\<close> is
  the list of characters not yet consumed (its head is \<open>current\<close>); byte offsets used only to
  slice the input are character offsets, which slice the same text. Line and column counters
  are natural numbers: a theorem of the companion theory bounds them by the input length, so
  the \<open>u32\<close> counters of the code cannot wrap on inputs below 4 GiB.
\<close>

section \<open>Spans, tokens and errors\<close>

record span =
  sp_file :: str
  sp_start_line :: nat
  sp_start_col :: nat
  sp_end_line :: nat
  sp_end_col :: nat
  sp_name :: "str option"

text \<open>\<open>==\<close> on spans: the name is an annotation and not part of the identity.\<close>

definition span_eq :: "span \<Rightarrow> span \<Rightarrow> bool" where
  "span_eq s t \<longleftrightarrow> sp_start_line s = sp_start_line t \<and> sp_start_col s = sp_start_col t
     \<and> sp_end_line s = sp_end_line t \<and> sp_end_col s = sp_end_col t \<and> sp_file s = sp_file t"

definition span_new :: "nat \<Rightarrow> nat \<Rightarrow> nat \<Rightarrow> nat \<Rightarrow> str \<Rightarrow> span" where
  "span_new sl sc el ec f =
     \<lparr>sp_file = f, sp_start_line = sl, sp_start_col = sc, sp_end_line = el, sp_end_col = ec,
      sp_name = None\<rparr>"

datatype token =
    OpenBracket | CloseBracket | Colon | Semicolon | Dot | Pipe | At | ImmediateAt
  | Ellipsis | DocSeparator | Newline
  | Comment str
  | IntTok int
  | U64Lit int
  | FloatTok f64
  | Identifier str
  | StringLiteral (tok_prefix: str) (tok_delimiter: str) (tok_content: str)
  | EscapedRef str
  | LetTok
  | CaseTok

type_synonym spanned_token = "token \<times> span"

text \<open>
  The messages of \<open>LexError\<close>, one constructor per \<open>LexError::new\<close> call text, with the
  values the text interpolates.
\<close>

datatype lex_message =
    MaxDepthExceeded nat
  | QuoteRunTooLong nat nat
  | UnterminatedString
  | BareDollar
  | UnderscoreNotFollowedByDigit
  | ExpectedDigitAfterExponent
  | FloatSuffixU
  | NegativeSuffixU
  | InvalidFloat
  | InvalidU64 int_error
  | InvalidInteger int_error
  | UnexpectedCharAfterNumber uchar
  | InvalidDigit uchar str
  | ExpectedDigitsAfter str

type_synonym lex_error = "lex_message \<times> span"

definition MAX_LEX_DEPTH :: nat where
  "MAX_LEX_DEPTH = 256"

section \<open>The lexer state\<close>

record lexer =
  lx_input :: str
  lx_rest :: str
  lx_line :: nat
  lx_column :: nat
  lx_last_newline_offset :: nat
  lx_tokens :: "spanned_token list"
  lx_had_whitespace_before :: bool
  lx_bracket_depth :: nat
  lx_after_access_dot :: bool
  lx_last_was_nonwhitespace :: bool
  lx_file_path :: str

type_synonym lex_result = "lex_error + lexer"

definition lexer_new :: "str \<Rightarrow> str \<Rightarrow> lexer" where
  "lexer_new input file_path =
     \<lparr>lx_input = input, lx_rest = input, lx_line = 1, lx_column = 1,
      lx_last_newline_offset = 0, lx_tokens = [], lx_had_whitespace_before = False,
      lx_bracket_depth = 0, lx_after_access_dot = False, lx_last_was_nonwhitespace = False,
      lx_file_path = file_path\<rparr>"

text \<open>The offset of \<open>current\<close> (in characters), or the input's length at its end.\<close>

definition offset :: "lexer \<Rightarrow> nat" where
  "offset lx = length (lx_input lx) - length (lx_rest lx)"

definition make_span :: "lexer \<Rightarrow> nat \<times> nat \<Rightarrow> nat \<times> nat \<Rightarrow> span" where
  "make_span lx s e = span_new (fst s) (snd s) (fst e) (snd e) (lx_file_path lx)"

definition current_position :: "lexer \<Rightarrow> nat \<times> nat" where
  "current_position lx = (lx_line lx, lx_column lx)"

definition peek_char :: "lexer \<Rightarrow> uchar option" where
  "peek_char lx = nth_opt (lx_rest lx) 0"

definition peek_ahead :: "lexer \<Rightarrow> nat \<Rightarrow> uchar option" where
  "peek_ahead lx n = nth_opt (lx_rest lx) n"

definition new_line :: "lexer \<Rightarrow> lexer" where
  "new_line lx = lx\<lparr>lx_line := lx_line lx + 1, lx_column := 1,
     lx_last_newline_offset := byte_length (take (offset lx) (lx_input lx)) + 1\<rparr>"

definition advance :: "lexer \<Rightarrow> lexer" where
  "advance lx =
     (case lx_rest lx of
        [] \<Rightarrow> lx
      | c # cs \<Rightarrow>
          (if c = NL then new_line lx
           else if c = CR then
             (if nth_opt cs 0 \<noteq> Some NL then new_line lx else lx\<lparr>lx_column := lx_column lx + 1\<rparr>)
           else lx\<lparr>lx_column := lx_column lx + 1\<rparr>)\<lparr>lx_rest := cs\<rparr>)"

definition push_token :: "token \<Rightarrow> span \<Rightarrow> lexer \<Rightarrow> lexer" where
  "push_token t s lx = lx\<lparr>lx_tokens := lx_tokens lx @ [(t, s)]\<rparr>"

definition fail_here :: "lex_message \<Rightarrow> nat \<times> nat \<Rightarrow> lexer \<Rightarrow> lex_result" where
  "fail_here m start lx = Inl (m, make_span lx start (current_position lx))"

definition emit :: "token \<Rightarrow> nat \<times> nat \<Rightarrow> lexer \<Rightarrow> lexer" where
  "emit t start lx = push_token t (make_span lx start (current_position lx)) lx"

definition set_nonws :: "bool \<Rightarrow> lexer \<Rightarrow> lexer" where
  "set_nonws b lx = lx\<lparr>lx_last_was_nonwhitespace := b\<rparr>"

definition set_after_dot :: "bool \<Rightarrow> lexer \<Rightarrow> lexer" where
  "set_after_dot b lx = lx\<lparr>lx_after_access_dot := b\<rparr>"

definition set_had_ws :: "bool \<Rightarrow> lexer \<Rightarrow> lexer" where
  "set_had_ws b lx = lx\<lparr>lx_had_whitespace_before := b\<rparr>"

definition set_depth :: "nat \<Rightarrow> lexer \<Rightarrow> lexer" where
  "set_depth d lx = lx\<lparr>lx_bracket_depth := d\<rparr>"

lemmas [lex_defs] = push_token_def emit_def set_nonws_def set_after_dot_def set_had_ws_def
  set_depth_def make_span_def current_position_def

lemma peek_char_simps [simp]:
  "lx_rest lx = [] \<Longrightarrow> peek_char lx = None"
  "lx_rest lx = c # cs \<Longrightarrow> peek_char lx = Some c"
  by (simp_all add: peek_char_def)

lemma peek_char_None_iff: "peek_char lx = None \<longleftrightarrow> lx_rest lx = []"
  by (cases "lx_rest lx") auto

lemma peek_char_Some_iff: "peek_char lx = Some c \<longleftrightarrow> (\<exists>cs. lx_rest lx = c # cs)"
  by (cases "lx_rest lx") auto

lemma rest_advance [simp]: "lx_rest (advance lx) = tl (lx_rest lx)"
  by (cases "lx_rest lx") (auto simp: advance_def)

lemma rest_setters [simp]:
  "lx_rest (push_token t s lx) = lx_rest lx" "lx_rest (emit t p lx) = lx_rest lx"
  "lx_rest (set_nonws b lx) = lx_rest lx" "lx_rest (set_after_dot b lx) = lx_rest lx"
  "lx_rest (set_had_ws b lx) = lx_rest lx" "lx_rest (set_depth d lx) = lx_rest lx"
  by (simp_all add: lex_defs)

lemma peek_Some_length: "peek_char lx = Some c \<Longrightarrow> length (lx_rest (advance lx)) < length (lx_rest lx)"
  by (auto simp: peek_char_Some_iff)

section \<open>White space, comments and references\<close>

function skip_whitespace_except_newline :: "lexer \<Rightarrow> lexer" where
  "skip_whitespace_except_newline lx =
     (case peek_char lx of
        None \<Rightarrow> lx
      | Some c \<Rightarrow>
          if c = SPACE \<or> c = TAB then
            skip_whitespace_except_newline (advance (set_had_ws True lx))
          else if c = CR then
            (let start = current_position lx;
                 lx1 = advance (set_nonws False (set_had_ws True lx));
                 lx2 = (if peek_char lx1 = Some NL then advance lx1 else lx1)
             in skip_whitespace_except_newline (emit Newline start lx2))
          else if c = NL then
            (let start = current_position lx;
                 lx1 = advance (set_nonws False (set_had_ws True lx))
             in skip_whitespace_except_newline (emit Newline start lx1))
          else lx)"
  by pat_completeness auto
termination
  by (relation "measure (\<lambda>lx. length (lx_rest lx))")
    (auto simp: peek_char_Some_iff Let_def)

declare skip_whitespace_except_newline.simps [simp del]

text \<open>The loops \<open>while let Some(c) = peek && p(c) { advance }\<close>.\<close>

function advance_while :: "(uchar \<Rightarrow> bool) \<Rightarrow> lexer \<Rightarrow> lexer" where
  "advance_while p lx =
     (case peek_char lx of
        None \<Rightarrow> lx
      | Some c \<Rightarrow> if p c then advance_while p (advance lx) else lx)"
  by pat_completeness auto
termination
  by (relation "measure (\<lambda>(p, lx). length (lx_rest lx))") (auto simp: peek_char_Some_iff)

declare advance_while.simps [simp del]

definition is_var_ident_char :: "uchar \<Rightarrow> bool" where
  "is_var_ident_char c \<longleftrightarrow> c \<notin> {SPACE, TAB, CR, NL, uc CHR ''['', uc CHR '']'', uc CHR '':'',
     uc CHR '';'', uc CHR ''#'', DQ, uc CHR ''@'', uc CHR ''.'', uc CHR ''|''}"

definition is_bare_word_char_at :: "lexer \<Rightarrow> nat \<Rightarrow> bool" where
  "is_bare_word_char_at lx n =
     (case peek_ahead lx n of
        Some c \<Rightarrow> c \<notin> {SPACE, TAB, CR, NL, uc CHR ''['', uc CHR '']'', uc CHR '':'',
          uc CHR '';'', uc CHR ''#'', DQ, uc CHR ''@'', uc CHR ''$'', uc CHR ''|''}
      | None \<Rightarrow> False)"

definition lex_comment :: "lexer \<Rightarrow> lex_result" where
  "lex_comment lx =
     (let start = current_position lx;
          lx1 = advance lx;
          comment_start = offset lx1;
          lx2 = advance_while (\<lambda>c. \<not> (c = NL \<or> c = CR)) lx1;
          comment_end = offset lx2;
          body = slice comment_start comment_end (lx_input lx2)
      in Inr (emit (Comment body) start lx2))"

definition lex_var_ref :: "lexer \<Rightarrow> lex_result" where
  "lex_var_ref lx =
     (let start = current_position lx;
          lx1 = advance lx;
          ident_start = offset lx1;
          lx2 = advance_while is_var_ident_char lx1;
          ident_end = offset lx2
      in if ident_start = ident_end then fail_here BareDollar start lx2
         else Inr (set_nonws True
                (emit (EscapedRef (slice ident_start ident_end (lx_input lx2))) start lx2)))"

definition lex_doc_separator :: "lexer \<Rightarrow> lex_result" where
  "lex_doc_separator lx =
     (let start = current_position lx;
          lx1 = advance (advance (advance (set_nonws False lx)))
      in Inr (emit DocSeparator start lx1))"

section \<open>String literals\<close>

function count_quotes :: "nat \<Rightarrow> lexer \<Rightarrow> nat \<times> lexer" where
  "count_quotes n lx =
     (if peek_char lx = Some DQ then count_quotes (n + 1) (advance lx) else (n, lx))"
  by pat_completeness auto
termination
  by (relation "measure (\<lambda>(n, lx). length (lx_rest lx))") (auto simp: peek_char_Some_iff)

declare count_quotes.simps [simp del]

function count_closing :: "lexer \<Rightarrow> nat \<Rightarrow> nat \<Rightarrow> nat" where
  "count_closing lx quote_count k =
     (if peek_ahead lx k = Some DQ \<and> k < quote_count then count_closing lx quote_count (k + 1)
      else k)"
  by pat_completeness auto
termination
  by (relation "measure (\<lambda>(lx, q, k). q - k)") auto

declare count_closing.simps [simp del]

text \<open>The empty literals of an even run of quotes, pair \<open>k\<close> at columns \<open>2k\<close> to \<open>2k + 2\<close>.\<close>

fun push_empty_literals :: "str \<Rightarrow> nat \<times> nat \<Rightarrow> nat list \<Rightarrow> lexer \<Rightarrow> lexer" where
  "push_empty_literals pfx start [] lx = lx"
| "push_empty_literals pfx start (k # ks) lx =
     push_empty_literals pfx start ks
       (push_token (StringLiteral pfx [DQ] [])
          (make_span lx (fst start, snd start + k * 2) (fst start, snd start + (k * 2 + 2))) lx)"

function scan_string :: "str \<Rightarrow> nat \<Rightarrow> nat \<times> nat \<Rightarrow> str \<Rightarrow> lexer \<Rightarrow> lex_result" where
  "scan_string pfx quote_count start content lx =
     (case peek_char lx of
        None \<Rightarrow> fail_here UnterminatedString start lx
      | Some c \<Rightarrow>
          if c = BSLASH then
            (let lx1 = advance lx
             in case peek_char lx1 of
                  Some c2 \<Rightarrow>
                    scan_string pfx quote_count start (content @ [c, c2]) (advance lx1)
                | None \<Rightarrow> scan_string pfx quote_count start (content @ [c]) lx1)
          else if c = DQ then
            (if count_closing lx quote_count 0 = quote_count then
               (let lx1 = (advance ^^ quote_count) lx
                in Inr (set_nonws True
                     (emit (StringLiteral pfx (replicate quote_count DQ) content) start lx1)))
             else scan_string pfx quote_count start (content @ [c]) (advance lx))
          else scan_string pfx quote_count start (content @ [c]) (advance lx))"
  by pat_completeness auto
termination
  by (relation "measure (\<lambda>(p, q, s, c, lx). length (lx_rest lx))")
    (auto simp: peek_char_Some_iff)

declare scan_string.simps [simp del]

definition lex_string_literal :: "str \<Rightarrow> lexer \<Rightarrow> lex_result" where
  "lex_string_literal pfx lx =
     (let start = current_position lx;
          (quote_count, lx1) = count_quotes 0 lx
      in if quote_count mod 2 = 0 then
           (if quote_count > MAX_LEX_DEPTH
            then fail_here (QuoteRunTooLong quote_count MAX_LEX_DEPTH) start lx1
            else Inr (set_nonws True
                   (push_empty_literals pfx start [0..<quote_count div 2] lx1)))
         else scan_string pfx quote_count start [] lx1)"

section \<open>Numbers\<close>

text \<open>Decimal digits with underscore separators; the loop occurs for the integer and the fraction.\<close>

function collect_digits :: "nat \<times> nat \<Rightarrow> lexer \<Rightarrow> lex_result" where
  "collect_digits start lx =
     (case peek_char lx of
        None \<Rightarrow> Inr lx
      | Some c \<Rightarrow>
          if c = uc CHR ''_'' then
            (case peek_ahead lx 1 of
               Some d \<Rightarrow>
                 if is_ascii_digit d then collect_digits start (advance lx)
                 else fail_here UnderscoreNotFollowedByDigit start (advance lx)
             | None \<Rightarrow> fail_here UnderscoreNotFollowedByDigit start (advance lx))
          else if is_ascii_digit c then collect_digits start (advance lx)
          else Inr lx)"
  by pat_completeness auto
termination
  by (relation "measure (\<lambda>(s, lx). length (lx_rest lx))") (auto simp: peek_char_Some_iff)

declare collect_digits.simps [simp del]

definition opt_digit :: "uchar option \<Rightarrow> bool" where
  "opt_digit o' = (case o' of Some c \<Rightarrow> is_ascii_digit c | None \<Rightarrow> False)"

definition opt_is :: "uchar option \<Rightarrow> uchar list \<Rightarrow> bool" where
  "opt_is o' cs = (case o' of Some c \<Rightarrow> c \<in> set cs | None \<Rightarrow> False)"

definition maybe_consume_exponent :: "nat \<times> nat \<Rightarrow> lexer \<Rightarrow> lex_result" where
  "maybe_consume_exponent start lx =
     (if opt_is (peek_char lx) [uc CHR ''e'', uc CHR ''E''] then
        (let lx1 = advance lx;
             lx2 = (if opt_is (peek_char lx1) [uc CHR ''+'', uc CHR ''-''] then advance lx1 else lx1)
         in if \<not> opt_digit (peek_char lx2) then fail_here ExpectedDigitAfterExponent start lx2
            else Inr (advance_while is_ascii_digit lx2))
      else Inr lx)"

text \<open>The guard after a number: a letter other than \<open>u\<close>, \<open>e\<close>, \<open>E\<close> is an error.\<close>

definition check_no_trailing_ident_chars :: "nat \<times> nat \<Rightarrow> lexer \<Rightarrow> lex_error + unit" where
  "check_no_trailing_ident_chars start lx =
     (case peek_char lx of
        Some c \<Rightarrow>
          if is_ascii_alphabetic c \<and> c \<noteq> uc CHR ''u'' \<and> c \<noteq> uc CHR ''e'' \<and> c \<noteq> uc CHR ''E''
          then Inl (UnexpectedCharAfterNumber c, make_span lx start (current_position lx))
          else Inr ()
      | None \<Rightarrow> Inr ())"

definition strip_underscores :: "str \<Rightarrow> str" where
  "strip_underscores s = filter (\<lambda>c. c \<noteq> uc CHR ''_'') s"

definition trim_end_u :: "str \<Rightarrow> str" where
  "trim_end_u s = rev (dropWhile (\<lambda>c. c = uc CHR ''u'') (rev s))"

definition emit_float :: "nat \<times> nat \<Rightarrow> nat \<Rightarrow> lexer \<Rightarrow> lex_result" where
  "emit_float start word_start lx =
     (if peek_char lx = Some (uc CHR ''u'') then fail_here FloatSuffixU start (advance lx)
      else bindE (check_no_trailing_ident_chars start lx) (\<lambda>_.
        let raw = slice word_start (offset lx) (lx_input lx);
            clean = strip_underscores raw
        in case parse_f64 clean of
             Some n \<Rightarrow> Inr (set_nonws True (emit (FloatTok n) start lx))
           | None \<Rightarrow> fail_here InvalidFloat start lx))"

definition emit_u64 :: "nat \<times> nat \<Rightarrow> int_error + int \<Rightarrow> lexer \<Rightarrow> lex_result" where
  "emit_u64 start r lx =
     (case r of
        Inr n \<Rightarrow> Inr (set_nonws True (emit (U64Lit n) start lx))
      | Inl e \<Rightarrow> fail_here (InvalidU64 e) start lx)"

definition emit_i64 :: "nat \<times> nat \<Rightarrow> int_error + int \<Rightarrow> lexer \<Rightarrow> lex_result" where
  "emit_i64 start r lx =
     (case r of
        Inr n \<Rightarrow> Inr (set_nonws True (emit (IntTok n) start lx))
      | Inl e \<Rightarrow> fail_here (InvalidInteger e) start lx)"

definition emit_integer :: "nat \<times> nat \<Rightarrow> nat \<Rightarrow> bool \<Rightarrow> lexer \<Rightarrow> lex_result" where
  "emit_integer start word_start is_negative lx =
     (let is_u64 = (peek_char lx = Some (uc CHR ''u''))
      in if is_u64 \<and> is_negative then fail_here NegativeSuffixU start (advance lx)
         else
           let lx1 = (if is_u64 then advance lx else lx)
           in bindE (check_no_trailing_ident_chars start lx1) (\<lambda>_.
                let raw = slice word_start (offset lx1) (lx_input lx1);
                    clean = strip_underscores (trim_end_u raw)
                in if is_u64 then emit_u64 start (parse_u64 clean) lx1
                   else emit_i64 start (parse_i64 clean) lx1))"

definition is_radix_digit :: "uchar \<Rightarrow> nat \<Rightarrow> bool" where
  "is_radix_digit c radix =
     (if radix = 2 then c = uc CHR ''0'' \<or> c = uc CHR ''1''
      else if radix = 8 then uc CHR ''0'' \<le> c \<and> c \<le> uc CHR ''7''
      else if radix = 10 then is_ascii_digit c
      else if radix = 16 then is_ascii_hexdigit c
      else False)"

definition radix_name :: "nat \<Rightarrow> str" where
  "radix_name radix =
     (if radix = 2 then us ''binary'' else if radix = 8 then us ''octal''
      else if radix = 16 then us ''hexadecimal'' else us ''radix'')"

text \<open>The digit loop of \<open>lex_radix_number\<close>: the digit count and the state at its exit.\<close>

function collect_radix_digits :: "nat \<times> nat \<Rightarrow> nat \<Rightarrow> nat \<Rightarrow> lexer \<Rightarrow> lex_error + nat \<times> lexer" where
  "collect_radix_digits start radix digit_count lx =
     (case peek_char lx of
        None \<Rightarrow> Inr (digit_count, lx)
      | Some c \<Rightarrow>
          if c = uc CHR ''_'' then
            (if (case peek_ahead lx 1 of Some d \<Rightarrow> is_radix_digit d radix | None \<Rightarrow> False)
             then collect_radix_digits start radix digit_count (advance lx)
             else Inl (UnderscoreNotFollowedByDigit,
                    make_span lx start (current_position (advance lx))))
          else if is_radix_digit c radix then
            collect_radix_digits start radix (digit_count + 1) (advance lx)
          else if is_ascii_alphanumeric c \<and> c \<noteq> uc CHR ''u'' then
            Inl (InvalidDigit c (radix_name radix),
              make_span lx start (current_position (advance lx)))
          else Inr (digit_count, lx))"
  by pat_completeness auto
termination
  by (relation "measure (\<lambda>(s, r, n, lx). length (lx_rest lx))") (auto simp: peek_char_Some_iff)

declare collect_radix_digits.simps [simp del]

text \<open>
  What follows the digits of a radix or leading-zero literal: an optional \<open>u\<close>, the guard,
  and the conversion of the digits between \<open>digit_start\<close> and the suffix.
\<close>

definition finish_radix :: "nat \<times> nat \<Rightarrow> nat \<Rightarrow> nat \<Rightarrow> (str \<Rightarrow> str) \<Rightarrow> lexer \<Rightarrow> lex_result" where
  "finish_radix start radix digit_start clean lx =
     (let is_u64 = (peek_char lx = Some (uc CHR ''u''));
          lx1 = (if is_u64 then advance lx else lx)
      in bindE (check_no_trailing_ident_chars start lx1) (\<lambda>_.
           let digit_end = (if is_u64 then offset lx1 - 1 else offset lx1);
               digits = clean (slice digit_start digit_end (lx_input lx1))
           in if is_u64 then emit_u64 start (u64_from_str_radix digits radix) lx1
              else emit_i64 start (i64_from_str_radix digits radix) lx1))"

definition lex_radix_number :: "nat \<times> nat \<Rightarrow> nat \<Rightarrow> str \<Rightarrow> lexer \<Rightarrow> lex_result" where
  "lex_radix_number start radix pfx lx =
     (let lx1 = advance (advance lx);
          digit_start = offset lx1
      in bindE (collect_radix_digits start radix 0 lx1) (\<lambda>(digit_count, lx2).
           if digit_count = 0 then fail_here (ExpectedDigitsAfter pfx) start lx2
           else finish_radix start radix digit_start strip_underscores lx2))"

function collect_octal_digits :: "nat \<times> nat \<Rightarrow> nat \<Rightarrow> lexer \<Rightarrow> lex_error + nat \<times> lexer" where
  "collect_octal_digits start digit_count lx =
     (case peek_char lx of
        None \<Rightarrow> Inr (digit_count, lx)
      | Some c \<Rightarrow>
          if uc CHR ''0'' \<le> c \<and> c \<le> uc CHR ''7'' then
            collect_octal_digits start (digit_count + 1) (advance lx)
          else if c = uc CHR ''8'' \<or> c = uc CHR ''9'' then
            Inl (InvalidDigit c (us ''octal''), make_span lx start (current_position (advance lx)))
          else Inr (digit_count, lx))"
  by pat_completeness auto
termination
  by (relation "measure (\<lambda>(s, n, lx). length (lx_rest lx))") (auto simp: peek_char_Some_iff)

declare collect_octal_digits.simps [simp del]

definition lex_octal_leading_zero :: "nat \<times> nat \<Rightarrow> lexer \<Rightarrow> lex_result" where
  "lex_octal_leading_zero start lx =
     (let lx1 = advance lx;
          digit_start = offset lx1
      in bindE (collect_octal_digits start 0 lx1) (\<lambda>(digit_count, lx2).
           if digit_count = 0 then Inr (set_nonws False (emit (IntTok 0) start lx2))
           else finish_radix start 8 digit_start (\<lambda>s. s) lx2))"

text \<open>The decimal part of \<open>lex_number\<close>, from the first digit on.\<close>

definition lex_decimal :: "nat \<times> nat \<Rightarrow> nat \<Rightarrow> bool \<Rightarrow> bool \<Rightarrow> lexer \<Rightarrow> lex_result" where
  "lex_decimal start word_start is_negative in_access_field lx =
     bindE (collect_digits start (advance lx)) (\<lambda>lx1.
       let has_dot = (\<not> in_access_field \<and> peek_char lx1 = Some (uc CHR ''.'')
                      \<and> opt_digit (peek_ahead lx1 1))
       in if has_dot then
            bindE (collect_digits start (advance lx1)) (\<lambda>lx2.
              bindE (maybe_consume_exponent start lx2) (\<lambda>lx3. emit_float start word_start lx3))
          else
            let is_e = opt_is (peek_char lx1) [uc CHR ''e'', uc CHR ''E''];
                after_e = (if opt_is (peek_ahead lx1 1) [uc CHR ''+'', uc CHR ''-'']
                           then peek_ahead lx1 2 else peek_ahead lx1 1)
            in if is_e \<and> opt_digit after_e then
                 bindE (maybe_consume_exponent start lx1) (\<lambda>lx2. emit_float start word_start lx2)
               else emit_integer start word_start is_negative lx1)"

definition lex_number :: "nat \<times> nat \<Rightarrow> nat \<Rightarrow> bool \<Rightarrow> lexer \<Rightarrow> lex_result" where
  "lex_number start word_start in_access_field lx =
     (let is_negative = (nth_opt (lx_input lx) word_start = Some (uc CHR ''-''))
      in if peek_char lx = Some (uc CHR ''0'') \<and> \<not> is_negative then
           (if opt_is (peek_ahead lx 1) [uc CHR ''x'', uc CHR ''X'']
            then lex_radix_number start 16 (us ''0x'') lx
            else if opt_is (peek_ahead lx 1) [uc CHR ''b'', uc CHR ''B'']
            then lex_radix_number start 2 (us ''0b'') lx
            else if opt_is (peek_ahead lx 1) [uc CHR ''o'', uc CHR ''O'']
            then lex_radix_number start 8 (us ''0o'') lx
            else if opt_digit (peek_ahead lx 1) then lex_octal_leading_zero start lx
            else lex_decimal start word_start is_negative in_access_field lx)
         else lex_decimal start word_start is_negative in_access_field lx)"

section \<open>Bare words\<close>

function bare_word_loop :: "bool \<Rightarrow> nat \<Rightarrow> lexer \<Rightarrow> lexer" where
  "bare_word_loop in_access_field char_index lx =
     (case peek_char lx of
        None \<Rightarrow> lx
      | Some c \<Rightarrow>
          if in_access_field then
            (let is_valid = (if char_index = 0 then is_ascii_alphabetic c \<or> c = uc CHR ''_''
                             else is_var_ident_char c)
             in if is_valid then bare_word_loop in_access_field (char_index + 1) (advance lx) else lx)
          else if is_var_ident_char c then bare_word_loop in_access_field char_index (advance lx)
          else lx)"
  by pat_completeness auto
termination
  by (relation "measure (\<lambda>(b, n, lx). length (lx_rest lx))")
    (auto simp: peek_char_Some_iff)

declare bare_word_loop.simps [simp del]

text \<open>
  The end of \<open>lex_bare_word_or_number\<close>: keywords and identifiers. An empty word in an
  access field is lexed again with the flag already reset; \<open>current\<close> is then still at
  \<open>word_start\<close>, so the reset of the position in the code changes nothing.
\<close>

definition emit_word :: "nat \<times> nat \<Rightarrow> str \<Rightarrow> lexer \<Rightarrow> lexer" where
  "emit_word start word lx =
     (if word = us ''let'' then set_nonws False (emit LetTok start lx)
      else if word = us ''case'' then set_nonws False (emit CaseTok start lx)
      else set_nonws True (emit (Identifier word) start lx))"

function lex_bare_word_or_number :: "lexer \<Rightarrow> lex_result" where
  "lex_bare_word_or_number lx0 =
     (let start = current_position lx0;
          word_start = offset lx0;
          in_access_field = lx_after_access_dot lx0;
          lx = set_after_dot False lx0;
          lx1 = (if peek_char lx = Some (uc CHR ''-'') then advance lx else lx)
      in if opt_digit (peek_char lx1) then lex_number start word_start in_access_field lx1
         else
           let lx2 = bare_word_loop in_access_field 0 lx1;
               word = slice word_start (offset lx2) (lx_input lx2)
           in if in_access_field \<and> word = []
              then lex_bare_word_or_number (set_after_dot False lx2)
              else Inr (emit_word start word lx2))"
  by pat_completeness auto
termination
  by (relation "measure (\<lambda>lx. if lx_after_access_dot lx then 1 else 0)")
    (auto simp: Let_def set_after_dot_def)

declare lex_bare_word_or_number.simps [simp del]

section \<open>Tokens\<close>

text \<open>A one-character token: \<open>advance\<close>, then \<open>push\<close> with the span of the character.\<close>

definition single :: "token \<Rightarrow> lexer \<Rightarrow> lexer" where
  "single t lx = emit t (current_position lx) (advance lx)"

definition next_token :: "lexer \<Rightarrow> lex_result" where
  "next_token lx =
     (let start = current_position lx
      in case peek_char lx of
        None \<Rightarrow> Inr lx
      | Some c \<Rightarrow>
          if c = uc CHR ''#'' then lex_comment (set_after_dot False lx)
          else if c = uc CHR ''['' then
            (let lx1 = set_nonws False (set_after_dot False lx)
             in if lx_bracket_depth lx1 \<ge> MAX_LEX_DEPTH
                then fail_here (MaxDepthExceeded MAX_LEX_DEPTH) start (advance lx1)
                else let lx2 = advance lx1
                     in Inr (emit OpenBracket start (set_depth (lx_bracket_depth lx2 + 1) lx2)))
          else if c = uc CHR '']'' then
            (let lx1 = advance (set_after_dot False lx)
             in Inr (set_nonws True
                  (emit CloseBracket start (set_depth (lx_bracket_depth lx1 - 1) lx1))))
          else if c = uc CHR '':'' then Inr (single Colon (set_nonws False (set_after_dot False lx)))
          else if c = uc CHR '';'' then
            Inr (single Semicolon (set_nonws False (set_after_dot False lx)))
          else if c = uc CHR ''@'' then
            (let lx1 = advance (set_after_dot False lx);
                 t = (if \<not> lx_had_whitespace_before lx1 \<and> lx_last_was_nonwhitespace lx1
                      then ImmediateAt else At)
             in Inr (emit t start (set_nonws False lx1)))
          else if c = DQ then lex_string_literal [] (set_after_dot False lx)
          else if c = uc CHR ''i'' \<and> peek_ahead lx 1 = Some DQ then
            lex_string_literal (us ''i'') (advance (set_after_dot False lx))
          else if c = uc CHR ''$'' then lex_var_ref (set_after_dot False lx)
          else if c = uc CHR ''%'' then lex_bare_word_or_number lx
          else if c = uc CHR ''|'' then Inr (single Pipe (set_nonws False (set_after_dot False lx)))
          else if c = uc CHR ''-'' then
            (if peek_ahead lx 1 = Some (uc CHR ''-'') \<and> peek_ahead lx 2 = Some (uc CHR ''-'')
                \<and> \<not> is_bare_word_char_at lx 3
             then lex_doc_separator (set_after_dot False lx)
             else lex_bare_word_or_number lx)
          else if c = uc CHR ''.'' then
            (let lx1 = set_nonws False lx
             in if peek_ahead lx1 1 = Some (uc CHR ''.'') \<and> peek_ahead lx1 2 = Some (uc CHR ''.'')
                then Inr (emit Ellipsis start (advance (advance (advance (set_after_dot False lx1)))))
                else Inr (set_after_dot True (single Dot lx1)))
          else lex_bare_word_or_number lx)"

end
