(* ===== verification/Lexer_Steps.thy ===== *)
theory Lexer_Steps
  imports Lexer
begin

text \<open>
  What one scanning step does to the lexer state. \<open>mv\<close> relates a state to a later one that
  has consumed characters without emitting a token, \<open>step\<close> to one that may also have
  emitted tokens: the spans of the new tokens lie in order between the two positions, the
  bracket depth follows the new tokens, and positions are bounded by what was consumed. Every
  method is a \<open>step\<close>, and \<open>next_token\<close> consumes at least one character, which is the
  termination argument of \<open>tokenize\<close>.
\<close>

section \<open>Positions, chains of spans, bracket depth\<close>

definition pos_le :: "nat \<times> nat \<Rightarrow> nat \<times> nat \<Rightarrow> bool" where
  "pos_le p q \<longleftrightarrow> fst p < fst q \<or> fst p = fst q \<and> snd p \<le> snd q"

lemma pos_le_refl [simp, intro]: "pos_le p p"
  by (simp add: pos_le_def)

lemma pos_le_trans [trans]: "pos_le p q \<Longrightarrow> pos_le q r \<Longrightarrow> pos_le p r"
  by (auto simp: pos_le_def)

definition span_start :: "span \<Rightarrow> nat \<times> nat" where
  "span_start s = (sp_start_line s, sp_start_col s)"

definition span_end :: "span \<Rightarrow> nat \<times> nat" where
  "span_end s = (sp_end_line s, sp_end_col s)"

lemma span_start_make [simp]: "span_start (make_span lx p q) = p"
  by (simp add: span_start_def make_span_def span_new_def)

lemma span_end_make [simp]: "span_end (make_span lx p q) = q"
  by (simp add: span_end_def make_span_def span_new_def)

lemma file_make [simp]: "sp_file (make_span lx p q) = lx_file_path lx"
  by (simp add: make_span_def span_new_def)

fun span_chain :: "nat \<times> nat \<Rightarrow> span list \<Rightarrow> nat \<times> nat \<Rightarrow> bool" where
  "span_chain p [] q = pos_le p q"
| "span_chain p (s # ss) q =
     (pos_le p (span_start s) \<and> pos_le (span_start s) (span_end s) \<and> span_chain (span_end s) ss q)"

lemma span_chain_le: "span_chain p ss q \<Longrightarrow> pos_le p q"
proof (induction ss arbitrary: p)
  case (Cons s ss)
  then show ?case
    by (metis span_chain.simps(2) pos_le_trans)
qed simp

lemma span_chain_weaken: "pos_le p q \<Longrightarrow> span_chain q ss r \<Longrightarrow> span_chain p ss r"
  by (cases ss) (auto intro: pos_le_trans)

lemma span_chain_append:
  "span_chain p ss q \<Longrightarrow> span_chain q ts r \<Longrightarrow> span_chain p (ss @ ts) r"
  by (induction ss arbitrary: p) (auto intro: span_chain_weaken)

definition depth_step :: "nat \<Rightarrow> token \<Rightarrow> nat" where
  "depth_step d t = (if t = OpenBracket then d + 1 else if t = CloseBracket then d - 1 else d)"

text \<open>The bracket depth after a list of tokens, with the limit at every opening bracket.\<close>

fun depth_path :: "nat \<Rightarrow> token list \<Rightarrow> nat \<Rightarrow> bool" where
  "depth_path d [] d' = (d = d')"
| "depth_path d (t # ts) d' =
     ((t = OpenBracket \<longrightarrow> d < MAX_LEX_DEPTH) \<and> depth_path (depth_step d t) ts d')"

lemma depth_path_append:
  "depth_path d ts d' \<Longrightarrow> depth_path d' vs d'' \<Longrightarrow> depth_path d (ts @ vs) d''"
  by (induction ts arbitrary: d) auto

lemma depth_path_neutral:
  "t \<noteq> OpenBracket \<Longrightarrow> t \<noteq> CloseBracket \<Longrightarrow> depth_path d [t] d"
  by (simp add: depth_step_def)

section \<open>Moves\<close>

definition weight :: "lexer \<Rightarrow> nat" where
  "weight lx = lx_line lx + lx_column lx + length (lx_rest lx)"

definition mv :: "lexer \<Rightarrow> lexer \<Rightarrow> bool" where
  "mv lx lx' \<longleftrightarrow>
     suffix (lx_rest lx') (lx_rest lx) \<and> lx_input lx' = lx_input lx
     \<and> lx_file_path lx' = lx_file_path lx \<and> lx_tokens lx' = lx_tokens lx
     \<and> lx_bracket_depth lx' = lx_bracket_depth lx
     \<and> pos_le (current_position lx) (current_position lx')
     \<and> (1 \<le> lx_column lx \<longrightarrow> 1 \<le> lx_column lx' \<and> weight lx' \<le> weight lx)"

lemma mv_refl [simp, intro]: "mv lx lx"
  by (simp add: mv_def)

lemma mv_trans [trans]: "mv a b \<Longrightarrow> mv b c \<Longrightarrow> mv a c"
  unfolding mv_def by (auto intro: pos_le_trans suffix_order.trans)

lemma mv_setters [simp, intro]:
  "mv lx (set_nonws b lx)" "mv lx (set_after_dot b lx)" "mv lx (set_had_ws b lx)"
  by (simp_all add: mv_def lex_defs weight_def)

lemma mv_advance [simp, intro]: "mv lx (advance lx)"
proof (cases "lx_rest lx")
  case Nil
  then show ?thesis by (simp add: advance_def)
next
  case (Cons c cs)
  then show ?thesis
    by (auto simp: mv_def advance_def new_line_def current_position_def pos_le_def weight_def
        suffix_def)
qed

lemma mv_advances [simp, intro]: "mv lx ((advance ^^ n) lx)"
  by (induction n) (auto intro: mv_trans)

lemma mv_advance_while [simp, intro]: "mv lx (advance_while p lx)"
proof (induction p lx rule: advance_while.induct)
  case (1 p lx)
  then show ?case
    by (subst advance_while.simps) (auto split: option.splits intro: mv_trans)
qed

lemma mv_count_quotes: "count_quotes n lx = (m, lx') \<Longrightarrow> mv lx lx'"
proof (induction n lx rule: count_quotes.induct)
  case (1 n lx)
  then show ?case
    by (subst (asm) (2) count_quotes.simps) (auto split: if_splits intro: mv_trans)
qed

lemma mv_bare_word_loop [simp, intro]: "mv lx (bare_word_loop b n lx)"
proof (induction b n lx rule: bare_word_loop.induct)
  case (1 b n lx)
  then show ?case
    by (subst bare_word_loop.simps) (auto split: option.splits simp: Let_def intro: mv_trans)
qed

lemma mv_collect_digits: "collect_digits s lx = Inr lx' \<Longrightarrow> mv lx lx'"
proof (induction s lx rule: collect_digits.induct)
  case (1 s lx)
  then show ?case
    by (auto simp: collect_digits.simps [of s lx] fail_here_def split: option.splits if_splits intro: mv_trans)
qed

lemma mv_collect_radix: "collect_radix_digits s r n lx = Inr (m, lx') \<Longrightarrow> mv lx lx'"
proof (induction s r n lx rule: collect_radix_digits.induct)
  case (1 s r n lx)
  then show ?case
    by (subst (asm) (3) collect_radix_digits.simps)
      (auto split: option.splits if_splits intro: mv_trans)
qed

lemma mv_collect_octal: "collect_octal_digits s n lx = Inr (m, lx') \<Longrightarrow> mv lx lx'"
proof (induction s n lx rule: collect_octal_digits.induct)
  case (1 s n lx)
  then show ?case
    by (subst (asm) (2) collect_octal_digits.simps)
      (auto split: option.splits if_splits intro: mv_trans)
qed

lemma mv_exponent: "maybe_consume_exponent s lx = Inr lx' \<Longrightarrow> mv lx lx'"
  by (auto simp: maybe_consume_exponent_def Let_def fail_here_def split: if_splits
      intro: mv_trans [OF mv_advance mv_advance_while]
        mv_trans [OF mv_advance mv_trans [OF mv_advance mv_advance_while]])

lemma mv_length: "mv lx lx' \<Longrightarrow> length (lx_rest lx') \<le> length (lx_rest lx)"
  by (simp add: mv_def suffix_length_le)

lemma mv_advance_strict: "lx_rest lx \<noteq> [] \<Longrightarrow> mv (advance lx) lx' \<Longrightarrow> length (lx_rest lx') < length (lx_rest lx)"
  by (drule mv_length) (cases "lx_rest lx"; simp)

section \<open>Steps\<close>

text \<open>The values of numeric tokens fit the code's \<open>i64\<close> and \<open>u64\<close>.\<close>

fun tok_range :: "token \<Rightarrow> bool" where
  "tok_range (IntTok n) = (i64_min \<le> n \<and> n \<le> i64_max)"
| "tok_range (U64Lit n) = (0 \<le> n \<and> n \<le> u64_max)"
| "tok_range _ = True"

text \<open>
  A step: \<open>ts\<close> are the tokens it emitted. The last clause bounds the coordinates of the
  spans, the one before it the bracket depth.
\<close>

definition step :: "spanned_token list \<Rightarrow> lexer \<Rightarrow> lexer \<Rightarrow> bool" where
  "step ts lx lx' \<longleftrightarrow>
     suffix (lx_rest lx') (lx_rest lx) \<and> lx_input lx' = lx_input lx
     \<and> lx_file_path lx' = lx_file_path lx \<and> lx_tokens lx' = lx_tokens lx @ ts
     \<and> span_chain (current_position lx) (map snd ts) (current_position lx')
     \<and> (\<forall>x \<in> set ts. tok_range (fst x))
     \<and> depth_path (lx_bracket_depth lx) (map fst ts) (lx_bracket_depth lx')
     \<and> (1 \<le> lx_column lx \<longrightarrow> 1 \<le> lx_column lx' \<and> weight lx' \<le> weight lx
         \<and> (\<forall>x \<in> set ts. sp_end_line (snd x) + sp_end_col (snd x) \<le> weight lx))"

lemma mv_step: "mv lx lx' \<longleftrightarrow> step [] lx lx'"
  by (auto simp: mv_def step_def)

lemma step_trans:
  assumes "step ts a b" and "step ts' b c"
  shows "step (ts @ ts') a c"
  using assms unfolding step_def
  by (auto intro: suffix_order.trans span_chain_append depth_path_append)

lemma mv_then_step: "mv a b \<Longrightarrow> step ts b c \<Longrightarrow> step ts a c"
  using step_trans [of "[]" a b ts c] by (simp add: mv_step)

lemma step_then_mv: "step ts a b \<Longrightarrow> mv b c \<Longrightarrow> step ts a c"
  using step_trans [of ts a b "[]" c] by (simp add: mv_step)

lemma step_length: "step ts lx lx' \<Longrightarrow> length (lx_rest lx') \<le> length (lx_rest lx)"
  by (simp add: step_def suffix_length_le)

text \<open>Emitting a token whose span starts where the scan began.\<close>

lemma step_emit:
  assumes "mv lx lx'" and "t \<noteq> OpenBracket" and "t \<noteq> CloseBracket" and "tok_range t"
  shows "step [(t, make_span lx' (current_position lx) (current_position lx'))] lx
           (emit t (current_position lx) lx')"
  using assms
  by (auto simp: mv_def step_def emit_def push_token_def current_position_def depth_step_def
      weight_def make_span_def span_new_def span_start_def span_end_def)

text \<open>The tokens after which \<open>@\<close> is an immediate annotation.\<close>

definition value_ending :: "token \<Rightarrow> bool" where
  "value_ending t =
     (case t of
        Identifier _ \<Rightarrow> True | CloseBracket \<Rightarrow> True | StringLiteral _ _ _ \<Rightarrow> True
      | IntTok _ \<Rightarrow> True | FloatTok _ \<Rightarrow> True | U64Lit _ \<Rightarrow> True | EscapedRef _ \<Rightarrow> True
      | _ \<Rightarrow> False)"

text \<open>
  A finished token: some tokens were emitted, none an immediate annotation, and where the
  value-ending flag is set the last of them is a value that ends at the current position.
\<close>

definition finished :: "lexer \<Rightarrow> lexer \<Rightarrow> bool" where
  "finished lx lx' \<longleftrightarrow>
     (\<exists>ts. step ts lx lx' \<and> ts \<noteq> [] \<and> (\<forall>x \<in> set ts. fst x \<noteq> ImmediateAt)
        \<and> (lx_last_was_nonwhitespace lx' \<longrightarrow>
             value_ending (fst (last ts)) \<and> span_end (snd (last ts)) = current_position lx'))"

lemma finished_mv: "mv a b \<Longrightarrow> finished b c \<Longrightarrow> finished a c"
  unfolding finished_def by (blast intro: mv_then_step)

lemma position_setters [simp]:
  "current_position (push_token t s lx) = current_position lx"
  "current_position (emit t p lx) = current_position lx"
  "current_position (set_nonws b lx) = current_position lx"
  "current_position (set_after_dot b lx) = current_position lx"
  "current_position (set_had_ws b lx) = current_position lx"
  "current_position (set_depth d lx) = current_position lx"
  by (simp_all add: lex_defs)

lemma nonws_set [simp]: "lx_last_was_nonwhitespace (set_nonws b lx) = b"
  by (simp add: lex_defs)

lemma finished_emit:
  assumes "mv lx lx'" and "t \<notin> {OpenBracket, CloseBracket, ImmediateAt}"
    and "b \<longrightarrow> value_ending t" and "tok_range t"
  shows "finished lx (set_nonws b (emit t (current_position lx) lx'))"
proof -
  let ?s = "make_span lx' (current_position lx) (current_position lx')"
  let ?e = "emit t (current_position lx) lx'"
  from assms have "step [(t, ?s)] lx ?e" by (intro step_emit) simp_all
  from step_then_mv [OF this mv_setters(1)] have "step [(t, ?s)] lx (set_nonws b ?e)" .
  then show ?thesis
    using assms(2,3) unfolding finished_def by (intro exI [of _ "[(t, ?s)]"]) simp
qed

lemma finished_emit_off:
  assumes "mv lx lx'" and "t \<notin> {OpenBracket, CloseBracket, ImmediateAt}"
    and "\<not> lx_last_was_nonwhitespace lx'" and "tok_range t"
  shows "finished lx (emit t (current_position lx) lx')"
proof -
  have "emit t (current_position lx) lx' = set_nonws False (emit t (current_position lx) lx')"
    using assms(3) by (simp add: lex_defs)
  then show ?thesis using finished_emit [OF assms(1,2), of False] assms(4) by simp
qed

lemma finished_after_dot: "finished lx lx' \<Longrightarrow> finished lx (set_after_dot b lx')"
proof -
  assume "finished lx lx'"
  then obtain ts where ts: "step ts lx lx'" "ts \<noteq> []" "\<forall>x \<in> set ts. fst x \<noteq> ImmediateAt"
    "lx_last_was_nonwhitespace lx' \<longrightarrow>
       value_ending (fst (last ts)) \<and> span_end (snd (last ts)) = current_position lx'"
    unfolding finished_def by blast
  from step_then_mv [OF ts(1) mv_setters(2)] have "step ts lx (set_after_dot b lx')" .
  with ts(2-4) show ?thesis
    unfolding finished_def by (intro exI [of _ ts]) (simp add: lex_defs)
qed

section \<open>The scanners finish a token\<close>

lemma emit_u64_finished:
  "mv lx0 lx \<Longrightarrow> (\<And>n. r = Inr n \<Longrightarrow> 0 \<le> n \<and> n \<le> u64_max) \<Longrightarrow> emit_u64 (current_position lx0) r lx = Inr lx' \<Longrightarrow>
   finished lx0 lx' \<and> lx_rest lx' = lx_rest lx"
  by (auto simp: emit_u64_def fail_here_def value_ending_def intro!: finished_emit
      split: sum.splits)

lemma emit_i64_finished:
  "mv lx0 lx \<Longrightarrow> (\<And>n. r = Inr n \<Longrightarrow> i64_min \<le> n \<and> n \<le> i64_max) \<Longrightarrow> emit_i64 (current_position lx0) r lx = Inr lx' \<Longrightarrow>
   finished lx0 lx' \<and> lx_rest lx' = lx_rest lx"
  by (auto simp: emit_i64_def fail_here_def value_ending_def intro!: finished_emit
      split: sum.splits)

lemma emit_float_finished:
  "mv lx0 lx \<Longrightarrow> emit_float (current_position lx0) ws lx = Inr lx' \<Longrightarrow>
   finished lx0 lx' \<and> lx_rest lx' = lx_rest lx"
  by (auto simp: emit_float_def fail_here_def value_ending_def bindE_eq_Inr_iff Let_def
      intro!: finished_emit split: option.splits if_splits)

lemma emit_integer_finished:
  "mv lx0 lx \<Longrightarrow> emit_integer (current_position lx0) ws neg lx = Inr lx' \<Longrightarrow>
   finished lx0 lx' \<and> length (lx_rest lx') \<le> length (lx_rest lx)"
  unfolding emit_integer_def Let_def fail_here_def bindE_eq_Inr_iff
  by (auto split: if_splits simp: bindE_eq_Inr_iff parse_u64_def parse_i64_def
      dest: emit_u64_finished [OF mv_trans [OF _ mv_advance] parse_u64_range]
        emit_i64_finished [OF _ parse_i64_range])

lemma finish_radix_finished:
  "mv lx0 lx \<Longrightarrow> finish_radix (current_position lx0) radix ds f lx = Inr lx' \<Longrightarrow>
   finished lx0 lx' \<and> length (lx_rest lx') \<le> length (lx_rest lx)"
  unfolding finish_radix_def Let_def fail_here_def bindE_eq_Inr_iff
  by (auto split: if_splits simp: bindE_eq_Inr_iff
      dest: emit_u64_finished [OF mv_trans [OF _ mv_advance] parse_u64_range]
        emit_i64_finished [OF _ parse_i64_range])

lemma lex_radix_finished:
  assumes "mv lx0 lx" and "lex_radix_number (current_position lx0) r p lx = Inr lx'"
  shows "finished lx0 lx' \<and> length (lx_rest lx') \<le> length (lx_rest (advance lx))"
proof -
  from assms(2) obtain n lx2 where
    c: "collect_radix_digits (current_position lx0) r 0 (advance (advance lx)) = Inr (n, lx2)"
    and f: "finish_radix (current_position lx0) r (offset (advance (advance lx)))
      strip_underscores lx2 = Inr lx'"
    by (auto simp: lex_radix_number_def Let_def bindE_eq_Inr_iff fail_here_def split: if_splits)
  have m: "mv (advance lx) lx2" using mv_trans [OF mv_advance mv_collect_radix [OF c]] .
  then have "mv lx0 lx2" using assms(1) mv_trans mv_advance by blast
  from finish_radix_finished [OF this f] mv_length [OF m] show ?thesis by auto
qed

lemma lex_octal_finished:
  assumes "mv lx0 lx" and "lex_octal_leading_zero (current_position lx0) lx = Inr lx'"
  shows "finished lx0 lx' \<and> length (lx_rest lx') \<le> length (lx_rest (advance lx))"
proof -
  from assms(2) obtain n lx2 where
    c: "collect_octal_digits (current_position lx0) 0 (advance lx) = Inr (n, lx2)"
    and f: "lx' = set_nonws False (emit (IntTok 0) (current_position lx0) lx2)
      \<or> finish_radix (current_position lx0) 8 (offset (advance lx)) (\<lambda>s. s) lx2 = Inr lx'"
    by (auto simp: lex_octal_leading_zero_def Let_def bindE_eq_Inr_iff split: if_splits)
  have m: "mv (advance lx) lx2" using mv_collect_octal [OF c] .
  then have m0: "mv lx0 lx2" using assms(1) mv_trans mv_advance by blast
  have "finished lx0 (set_nonws False (emit (IntTok 0) (current_position lx0) lx2))"
    using m0 by (intro finished_emit) (auto simp: i64_min_def i64_max_def)
  with f finish_radix_finished [OF m0] mv_length [OF m] show ?thesis by force
qed

lemma lex_decimal_finished:
  assumes "mv lx0 lx" and "lex_decimal (current_position lx0) ws neg acc lx = Inr lx'"
  shows "finished lx0 lx' \<and> length (lx_rest lx') \<le> length (lx_rest (advance lx))"
proof -
  from assms(2) obtain lx1 where
    c: "collect_digits (current_position lx0) (advance lx) = Inr lx1"
    and r: "(\<exists>lx2 lx3. collect_digits (current_position lx0) (advance lx1) = Inr lx2
        \<and> maybe_consume_exponent (current_position lx0) lx2 = Inr lx3
        \<and> emit_float (current_position lx0) ws lx3 = Inr lx')
      \<or> (\<exists>lx2. maybe_consume_exponent (current_position lx0) lx1 = Inr lx2
        \<and> emit_float (current_position lx0) ws lx2 = Inr lx')
      \<or> emit_integer (current_position lx0) ws neg lx1 = Inr lx'"
    unfolding lex_decimal_def Let_def bindE_eq_Inr_iff
    by (force split: if_splits simp: bindE_eq_Inr_iff)
  have m: "mv (advance lx) lx1" using mv_collect_digits [OF c] .
  have m0: "mv lx0 (advance lx)" using mv_trans [OF assms(1) mv_advance] .
  from r show ?thesis
  proof (elim disjE exE conjE)
    fix lx2 lx3
    assume a: "collect_digits (current_position lx0) (advance lx1) = Inr lx2"
      "maybe_consume_exponent (current_position lx0) lx2 = Inr lx3"
      and e: "emit_float (current_position lx0) ws lx3 = Inr lx'"
    have m1: "mv (advance lx) lx3"
      using m mv_collect_digits [OF a(1)] mv_exponent [OF a(2)] by (meson mv_trans mv_advance)
    from emit_float_finished [OF mv_trans [OF m0 m1] e] mv_length [OF m1] show ?thesis by simp
  next
    fix lx2
    assume a: "maybe_consume_exponent (current_position lx0) lx1 = Inr lx2"
      and e: "emit_float (current_position lx0) ws lx2 = Inr lx'"
    have m1: "mv (advance lx) lx2" using m mv_exponent [OF a] by (rule mv_trans)
    from emit_float_finished [OF mv_trans [OF m0 m1] e] mv_length [OF m1] show ?thesis by simp
  next
    assume e: "emit_integer (current_position lx0) ws neg lx1 = Inr lx'"
    from emit_integer_finished [OF mv_trans [OF m0 m] e] mv_length [OF m] show ?thesis by auto
  qed
qed

lemma lex_number_finished:
  "mv lx0 lx \<Longrightarrow> lex_number (current_position lx0) ws acc lx = Inr lx' \<Longrightarrow>
   finished lx0 lx' \<and> length (lx_rest lx') \<le> length (lx_rest (advance lx))"
  unfolding lex_number_def Let_def
  by (auto simp del: rest_advance split: if_splits
      dest: lex_radix_finished lex_octal_finished lex_decimal_finished)

section \<open>String literals\<close>

lemma scan_string_finished:
  "mv lx0 lx \<Longrightarrow> scan_string p q (current_position lx0) cs lx = Inr lx' \<Longrightarrow>
   finished lx0 lx' \<and> length (lx_rest lx') \<le> length (lx_rest lx)"
proof (induction p q "current_position lx0" cs lx rule: scan_string.induct)
  case (1 p q cs lx)
  show ?case
  proof (cases "peek_char lx")
    case None
    with "1.prems" show ?thesis by (simp add: scan_string.simps [of _ _ _ _ lx] fail_here_def)
  next
    case (Some c)
    have m: "mv lx0 (advance lx)" "mv lx0 (advance (advance lx))"
      using "1.prems"(1) by (meson mv_trans mv_advance)+
    have le: "length (lx_rest (advance lx)) \<le> length (lx_rest lx)"
      "length (lx_rest (advance (advance lx))) \<le> length (lx_rest lx)"
      by (meson mv_length mv_trans mv_advance)+
    note unfold = "1.prems"(2) [unfolded scan_string.simps [of p q _ cs lx] Some]
    consider (esc) d where "c = BSLASH" "peek_char (advance lx) = Some d"
      | (esc_end) "c = BSLASH" "peek_char (advance lx) = None"
      | (close) "c = DQ" "count_closing lx q 0 = q"
      | (quote) "c = DQ" "count_closing lx q 0 \<noteq> q"
      | (other) "c \<noteq> BSLASH" "c \<noteq> DQ"
      by (cases "peek_char (advance lx)") auto
    then show ?thesis
    proof cases
      case esc
      with unfold have "scan_string p q (current_position lx0) (cs @ [c, d]) (advance (advance lx)) = Inr lx'"
        by simp
      from "1.hyps"(2) [OF Some esc(1) refl esc(2) m(2) this] le show ?thesis by auto
    next
      case esc_end
      with unfold have "scan_string p q (current_position lx0) (cs @ [c]) (advance lx) = Inr lx'"
        by simp
      from "1.hyps"(1) [OF Some esc_end(1) refl esc_end(2) m(1) this] le show ?thesis by auto
    next
      case close
      have "mv lx ((advance ^^ q) lx)" by simp
      from mv_trans [OF "1.prems"(1) this] have
        "finished lx0 (set_nonws True (emit (StringLiteral p (replicate q DQ) cs)
          (current_position lx0) ((advance ^^ q) lx)))"
        by (intro finished_emit) (auto simp: value_ending_def)
      with unfold close mv_length [OF mv_advances, of q lx] show ?thesis by auto
    next
      case quote
      with unfold have r: "scan_string p q (current_position lx0) (cs @ [c]) (advance lx) = Inr lx'"
        by simp
      from quote(1) have "c \<noteq> BSLASH" by simp
      from "1.hyps"(3) [OF Some this quote(1) quote(2) m(1) r] le
      show ?thesis by auto
    next
      case other
      with unfold have "scan_string p q (current_position lx0) (cs @ [c]) (advance lx) = Inr lx'"
        by simp
      from "1.hyps"(4) [OF Some other m(1) this] le show ?thesis by auto
    qed
  qed
qed

lemma count_quotes_spec:
  "count_quotes n lx = (m, lx') \<Longrightarrow>
   n \<le> m \<and> current_position lx' = (lx_line lx, lx_column lx + (m - n))
   \<and> length (lx_rest lx) = length (lx_rest lx') + (m - n)"
proof (induction n lx rule: count_quotes.induct)
  case (1 n lx)
  show ?case
  proof (cases "peek_char lx = Some DQ")
    case True
    then obtain cs where cs: "lx_rest lx = DQ # cs" by (auto simp: peek_char_Some_iff)
    then have a: "lx_line (advance lx) = lx_line lx" "lx_column (advance lx) = lx_column lx + 1"
      by (simp_all add: advance_def)
    from True have "count_quotes n lx = count_quotes (n + 1) (advance lx)"
      by (subst count_quotes.simps) simp
    from trans [OF this [symmetric] "1.prems"] have "count_quotes (n + 1) (advance lx) = (m, lx')" .
    from "1.IH" [OF True this] a cs show ?thesis by auto
  next
    case False
    with "1.prems" show ?thesis by (simp add: count_quotes.simps [of n lx] current_position_def)
  qed
qed

lemma push_empty_closed:
  "push_empty_literals p start ks lx =
     lx\<lparr>lx_tokens := lx_tokens lx @ map (\<lambda>k. (StringLiteral p [DQ] [],
       make_span lx (fst start, snd start + k * 2) (fst start, snd start + (k * 2 + 2)))) ks\<rparr>"
  by (induction ks arbitrary: lx) (simp_all add: push_token_def make_span_def)

lemma pairs_chain:
  "span_chain (l, c + 2 * i) (map (\<lambda>k. make_span lx (l, c + k * 2) (l, c + (k * 2 + 2))) [i..<i + n])
     (l, c + 2 * (i + n))"
proof (induction n arbitrary: i)
  case (Suc n)
  have "[i..<i + Suc n] = i # [Suc i..<Suc i + n]" by (simp add: upt_conv_Cons del: upt_Suc)
  with Suc [of "Suc i"] show ?case
    by (simp add: pos_le_def algebra_simps del: upt_Suc)
qed simp

lemma depth_path_strings: "depth_path d (map (\<lambda>k. StringLiteral p x (y k)) ks) d"
  by (induction ks) (simp_all add: depth_step_def)

lemma empty_literals_finished:
  assumes c: "count_quotes 0 lx = (m, lx1)" and ev: "m mod 2 = 0" and pos: "0 < m"
    and r: "r = set_nonws True (push_empty_literals p (current_position lx) [0..<m div 2] lx1)"
  shows "finished lx r"
proof -
  let ?span = "\<lambda>k. make_span lx1 (lx_line lx, lx_column lx + k * 2) (lx_line lx, lx_column lx + (k * 2 + 2))"
  let ?ts = "map (\<lambda>k. (StringLiteral p [DQ] [], ?span k)) [0..<m div 2]"
  have mv1: "mv lx lx1" using mv_count_quotes [OF c] .
  have spec: "current_position lx1 = (lx_line lx, lx_column lx + m)"
    "length (lx_rest lx) = length (lx_rest lx1) + m"
    using count_quotes_spec [OF c] by simp_all
  have m2: "2 * (m div 2) = m" using ev by presburger
  have fields: "lx_rest r = lx_rest lx1" "lx_input r = lx_input lx1"
    "lx_file_path r = lx_file_path lx1" "lx_tokens r = lx_tokens lx1 @ ?ts"
    "lx_bracket_depth r = lx_bracket_depth lx1" "lx_column r = lx_column lx1"
    "current_position r = current_position lx1" "weight r = weight lx1"
    by (simp_all add: r push_empty_closed lex_defs weight_def)
  have "span_chain (lx_line lx, lx_column lx) (map ?span [0..<m div 2]) (current_position lx1)"
    using pairs_chain [of "lx_line lx" "lx_column lx" 0 lx1 "m div 2"] spec(1) m2 by simp
  then have ch: "span_chain (current_position lx) (map snd ?ts) (current_position r)"
    unfolding fields by (simp add: comp_def current_position_def)
  have rng: "\<forall>x \<in> set ?ts. tok_range (fst x)" by auto
  have bound: "\<forall>x \<in> set ?ts. sp_end_line (snd x) + sp_end_col (snd x) \<le> weight lx"
    using spec(2) m2 by (auto simp: make_span_def span_new_def weight_def)
  have dp: "depth_path (lx_bracket_depth lx) (map fst ?ts) (lx_bracket_depth r)"
    using mv1 depth_path_strings by (simp add: fields mv_def comp_def)
  have "step ?ts lx r"
    using mv1 ch rng bound dp unfolding step_def mv_def fields by blast
  moreover have "?ts \<noteq> []" using pos m2 by auto
  moreover have "last ?ts = (StringLiteral p [DQ] [], ?span (m div 2 - 1))"
    using pos m2 by (subst last_map) auto
  moreover have "span_end (?span (m div 2 - 1)) = current_position r"
  proof -
    have "(m div 2 - 1) * 2 + 2 = m" using pos m2 by auto
    with spec(1) show ?thesis by (simp add: fields)
  qed
  ultimately show ?thesis
    unfolding finished_def by (intro exI [of _ ?ts]) (auto simp: value_ending_def)
qed

lemma lex_string_finished:
  assumes q: "peek_char lx = Some DQ" and r: "lex_string_literal p lx = Inr lx'"
  shows "finished lx lx' \<and> length (lx_rest lx') < length (lx_rest lx)"
proof -
  obtain m lx1 where c: "count_quotes 0 lx = (m, lx1)" by force
  from q have step1: "count_quotes 0 lx = count_quotes 1 (advance lx)"
    by (simp add: count_quotes.simps [of 0 lx])
  with c have m1: "1 \<le> m" using count_quotes_spec [of 1 "advance lx" m lx1] by simp
  have len: "length (lx_rest lx) = length (lx_rest lx1) + m"
    using count_quotes_spec [OF c] by simp
  show ?thesis
  proof (cases "m mod 2 = 0")
    case True
    with r c have "lx' = set_nonws True (push_empty_literals p (current_position lx) [0..<m div 2] lx1)"
      by (auto simp: lex_string_literal_def Let_def fail_here_def split: if_splits)
    with empty_literals_finished [OF c True _ this] m1 len show ?thesis
      by (simp add: push_empty_closed)
  next
    case False
    with r c have "scan_string p m (current_position lx) [] lx1 = Inr lx'"
      by (simp add: lex_string_literal_def)
    from scan_string_finished [OF mv_count_quotes [OF c] this] m1 len show ?thesis by simp
  qed
qed

section \<open>Words, references, comments\<close>

text \<open>A slice between two offsets of a scan is the text the scan consumed.\<close>

lemma consumed_slice:
  assumes "suffix (lx_rest lx) (lx_input lx)" and "mv lx lx2"
  shows "lx_rest lx = slice (offset lx) (offset lx2) (lx_input lx2) @ lx_rest lx2"
proof -
  from assms(1) obtain u where u: "lx_input lx = u @ lx_rest lx" by (auto simp: suffix_def)
  from assms(2) obtain v where v: "lx_rest lx = v @ lx_rest lx2" by (auto simp: mv_def suffix_def)
  from assms(2) have i: "lx_input lx2 = lx_input lx" by (simp add: mv_def)
  have "lx_input lx = u @ v @ lx_rest lx2" using u v by simp
  moreover have "offset lx = length u" "offset lx2 = length u + length v"
    using u v i by (simp_all add: offset_def)
  ultimately have "slice (offset lx) (offset lx2) (lx_input lx2) = v"
    by (simp add: i slice_def)
  with v show ?thesis by simp
qed

lemma emit_word_finished:
  "mv lx0 lx \<Longrightarrow> finished lx0 (emit_word (current_position lx0) w lx)"
  by (auto simp: emit_word_def value_ending_def intro!: finished_emit)

lemma rest_emit_word [simp]: "lx_rest (emit_word p w lx) = lx_rest lx"
  by (simp add: emit_word_def)

lemma lex_var_ref_finished:
  assumes "lex_var_ref lx = Inr lx'" and "lx_rest lx \<noteq> []"
  shows "finished lx lx' \<and> length (lx_rest lx') < length (lx_rest lx)"
proof -
  let ?lx2 = "advance_while is_var_ident_char (advance lx)"
  from assms(1) obtain w where
    e: "lx' = set_nonws True (emit (EscapedRef w) (current_position lx) ?lx2)"
    by (auto simp: lex_var_ref_def Let_def fail_here_def split: if_splits)
  have m: "mv lx ?lx2" using mv_trans [OF mv_advance mv_advance_while] .
  show ?thesis
    using finished_emit [OF m, of "EscapedRef w" True] mv_advance_strict [OF assms(2) mv_advance_while]
    by (simp add: e value_ending_def)
qed

lemma lex_doc_separator_finished:
  assumes "lex_doc_separator lx = Inr lx'" and "lx_rest lx \<noteq> []"
  shows "finished lx lx' \<and> length (lx_rest lx') < length (lx_rest lx)"
proof -
  let ?lx1 = "advance (advance (advance (set_nonws False lx)))"
  have m: "mv lx ?lx1" by (meson mv_trans mv_advance mv_setters)
  have off: "\<not> lx_last_was_nonwhitespace ?lx1"
    by (auto simp: advance_def new_line_def set_nonws_def split: list.splits if_splits)
  from assms(1) have "lx' = emit DocSeparator (current_position lx) ?lx1"
    by (simp add: lex_doc_separator_def Let_def lex_defs)
  with finished_emit_off [OF m _ off, of DocSeparator] assms(2) show ?thesis
    by (cases "lx_rest lx") auto
qed

lemma advance_while_stops:
  "lx_rest (advance_while p lx) = dropWhile p (lx_rest lx)"
proof (induction p lx rule: advance_while.induct)
  case (1 p lx)
  then show ?case
    by (cases "lx_rest lx") (auto simp: advance_while.simps [of p lx])
qed

lemma nonws_advance [simp]: "lx_last_was_nonwhitespace (advance lx) = lx_last_was_nonwhitespace lx"
  by (auto simp: advance_def new_line_def split: list.splits)

lemma nonws_advance_while [simp]:
  "lx_last_was_nonwhitespace (advance_while p lx) = lx_last_was_nonwhitespace lx"
proof (induction p lx rule: advance_while.induct)
  case (1 p lx)
  then show ?case
    by (subst advance_while.simps) (auto split: option.splits)
qed

lemma nonws_setters [simp]:
  "lx_last_was_nonwhitespace (set_after_dot b lx) = lx_last_was_nonwhitespace lx"
  "lx_last_was_nonwhitespace (set_had_ws b lx) = lx_last_was_nonwhitespace lx"
  "lx_last_was_nonwhitespace (set_depth d lx) = lx_last_was_nonwhitespace lx"
  "lx_last_was_nonwhitespace (emit t p lx) = lx_last_was_nonwhitespace lx"
  by (simp_all add: lex_defs)

lemma lex_comment_step:
  assumes "lex_comment lx = Inr lx'" and "lx_rest lx \<noteq> []"
  shows "\<exists>w s. step [(Comment w, s)] lx lx' \<and> length (lx_rest lx') < length (lx_rest lx)
    \<and> (lx_rest lx' = [] \<or> hd (lx_rest lx') = NL \<or> hd (lx_rest lx') = CR)"
proof -
  let ?p = "\<lambda>c. \<not> (c = NL \<or> c = CR)"
  let ?lx2 = "advance_while ?p (advance lx)"
  from assms(1) obtain w where e: "lx' = emit (Comment w) (current_position lx) ?lx2"
    by (auto simp: lex_comment_def Let_def)
  have m: "mv lx ?lx2" using mv_trans [OF mv_advance mv_advance_while] .
  have "length (lx_rest ?lx2) < length (lx_rest lx)"
    using mv_advance_strict [OF assms(2) mv_advance_while] .
  moreover have "lx_rest ?lx2 = [] \<or> \<not> ?p (hd (lx_rest ?lx2))"
    using hd_dropWhile [of ?p] by (auto simp: advance_while_stops)
  ultimately show ?thesis
    using step_emit [OF m, of "Comment w"] by (auto simp: e)
qed

lemma bare_word_loop_strict:
  assumes "lx_rest lx = c # cs" and "is_var_ident_char c"
  shows "length (lx_rest (bare_word_loop False n lx)) < length (lx_rest lx)"
proof -
  have "bare_word_loop False n lx = bare_word_loop False n (advance lx)"
    using assms by (subst bare_word_loop.simps) simp
  moreover have "length (lx_rest (bare_word_loop False n (advance lx))) \<le> length (lx_rest (advance lx))"
    by (rule mv_length) simp
  ultimately show ?thesis using assms by simp
qed

lemma bare_word_plain:
  assumes c: "lx_rest lx = c # cs" "is_var_ident_char c" and dot: "\<not> lx_after_access_dot lx"
    and r: "lex_bare_word_or_number lx = Inr lx'"
  shows "finished lx lx' \<and> length (lx_rest lx') < length (lx_rest lx)"
proof -
  let ?lx0 = "set_after_dot False lx"
  let ?lx1 = "if peek_char ?lx0 = Some (uc CHR ''-'') then advance ?lx0 else ?lx0"
  have m1: "mv lx ?lx1" by (auto intro: mv_trans [OF mv_setters(2) mv_advance])
  show ?thesis
  proof (cases "opt_digit (peek_char ?lx1)")
    case True
    with r dot have n: "lex_number (current_position lx) (offset lx) False ?lx1 = Inr lx'"
      by (subst (asm) lex_bare_word_or_number.simps) (simp add: Let_def)
    from True have ne: "lx_rest ?lx1 \<noteq> []" by (auto simp: opt_digit_def split: option.splits)
    from lex_number_finished [OF m1 n] have f: "finished lx lx'"
      and l: "length (lx_rest lx') \<le> length (lx_rest (advance ?lx1))" by auto
    have "length (lx_rest (advance ?lx1)) < length (lx_rest ?lx1)" using ne
      by (cases "lx_rest ?lx1") auto
    with f l mv_length [OF m1] show ?thesis by linarith
  next
    case False
    let ?lx2 = "bare_word_loop False 0 ?lx1"
    from False r dot have e: "lx' = emit_word (current_position lx)
        (slice (offset lx) (offset ?lx2) (lx_input ?lx2)) ?lx2"
      by (subst (asm) lex_bare_word_or_number.simps) (simp add: Let_def)
    have "mv lx ?lx2" using mv_trans [OF m1 mv_bare_word_loop] .
    from emit_word_finished [OF this] have f: "finished lx lx'" by (simp add: e)
    have "length (lx_rest ?lx2) < length (lx_rest lx)"
    proof (cases "c = uc CHR ''-''")
      case True
      with c have "?lx1 = advance ?lx0" by simp
      then show ?thesis
        using c mv_length [OF mv_bare_word_loop, of False 0 ?lx1] by simp
    next
      case False
      with c have "?lx1 = ?lx0" by simp
      then show ?thesis using bare_word_loop_strict [of ?lx0 c cs 0] c by simp
    qed
    with f show ?thesis by (simp add: e)
  qed
qed

lemma bare_word_plain_le:
  assumes dot: "\<not> lx_after_access_dot lx" and r: "lex_bare_word_or_number lx = Inr lx'"
  shows "length (lx_rest lx') \<le> length (lx_rest lx)"
proof -
  let ?lx0 = "set_after_dot False lx"
  let ?lx1 = "if peek_char ?lx0 = Some (uc CHR ''-'') then advance ?lx0 else ?lx0"
  have m1: "mv lx ?lx1" by (auto intro: mv_trans [OF mv_setters(2) mv_advance])
  show ?thesis
  proof (cases "opt_digit (peek_char ?lx1)")
    case True
    with r dot have n: "lex_number (current_position lx) (offset lx) False ?lx1 = Inr lx'"
      by (subst (asm) lex_bare_word_or_number.simps) (simp add: Let_def)
    from lex_number_finished [OF m1 n] mv_length [OF mv_trans [OF m1 mv_advance]]
    show ?thesis by linarith
  next
    case False
    let ?lx2 = "bare_word_loop False 0 ?lx1"
    from False r dot have "lx' = emit_word (current_position lx)
        (slice (offset lx) (offset ?lx2) (lx_input ?lx2)) ?lx2"
      by (subst (asm) lex_bare_word_or_number.simps) (simp add: Let_def)
    then show ?thesis using mv_length [OF mv_trans [OF m1 mv_bare_word_loop]] by simp
  qed
qed

lemma bare_word_finished:
  assumes c: "lx_rest lx = c # cs" "is_var_ident_char c"
    and r: "lex_bare_word_or_number lx = Inr lx'"
  shows "(suffix (lx_rest lx) (lx_input lx) \<longrightarrow> finished lx lx') \<and> length (lx_rest lx') < length (lx_rest lx)"
proof (cases "lx_after_access_dot lx")
  case False
  with bare_word_plain [OF c _ r] show ?thesis by simp
next
  case True
  let ?lx0 = "set_after_dot False lx"
  let ?lx1 = "if peek_char ?lx0 = Some (uc CHR ''-'') then advance ?lx0 else ?lx0"
  have m1: "mv lx ?lx1" by (auto intro: mv_trans [OF mv_setters(2) mv_advance])
  show ?thesis
  proof (cases "opt_digit (peek_char ?lx1)")
    case True': True
    with r True have n: "lex_number (current_position lx) (offset lx) True ?lx1 = Inr lx'"
      by (subst (asm) lex_bare_word_or_number.simps) (simp add: Let_def)
    from True' have ne: "lx_rest ?lx1 \<noteq> []" by (auto simp: opt_digit_def split: option.splits)
    from lex_number_finished [OF m1 n] have f: "finished lx lx'"
      and l: "length (lx_rest lx') \<le> length (lx_rest (advance ?lx1))" by auto
    have "length (lx_rest (advance ?lx1)) < length (lx_rest ?lx1)" using ne
      by (cases "lx_rest ?lx1") auto
    with f l mv_length [OF m1] show ?thesis by linarith
  next
    case False
    let ?lx2 = "bare_word_loop True 0 ?lx1"
    let ?w = "slice (offset lx) (offset ?lx2) (lx_input ?lx2)"
    have m2: "mv lx ?lx2" using mv_trans [OF m1 mv_bare_word_loop] .
    have cons: "lx_rest lx = ?w @ lx_rest ?lx2" if "suffix (lx_rest lx) (lx_input lx)"
      using consumed_slice [OF that m2] .
    show ?thesis
    proof (cases "?w = []")
      case w: True
      from False r True w have re: "lex_bare_word_or_number (set_after_dot False ?lx2) = Inr lx'"
        by (subst (asm) lex_bare_word_or_number.simps) (simp add: Let_def)
      show ?thesis
      proof (cases "lx_rest ?lx2 = lx_rest lx")
        case same: True
        with bare_word_plain [of "set_after_dot False ?lx2" c cs lx'] c re
        have "finished (set_after_dot False ?lx2) lx'" "length (lx_rest lx') < length (lx_rest lx)"
          by (simp_all add: set_after_dot_def)
        with finished_mv [OF mv_trans [OF m2 mv_setters(2)]] show ?thesis by blast
      next
        case diff: False
        from m2 obtain v where v: "lx_rest lx = v @ lx_rest ?lx2" by (auto simp: mv_def suffix_def)
        with diff have "v \<noteq> []" by (metis append_Nil)
        then have "length (lx_rest ?lx2) < length (lx_rest lx)"
          using arg_cong [OF v, of length] by (simp only: length_append) simp
        moreover from bare_word_plain_le [OF _ re]
        have "length (lx_rest lx') \<le> length (lx_rest ?lx2)" by (simp add: set_after_dot_def)
        moreover have "\<not> suffix (lx_rest lx) (lx_input lx)"
          using cons w diff by (metis append_Nil)
        ultimately show ?thesis by linarith
      qed
    next
      case w: False
      with False r True have e: "lx' = emit_word (current_position lx) ?w ?lx2"
        by (subst (asm) lex_bare_word_or_number.simps) (simp add: Let_def)
      from w have "offset lx < offset ?lx2" by (simp add: slice_def)
      moreover have "lx_input ?lx2 = lx_input lx" using m2 by (simp add: mv_def)
      ultimately have "length (lx_rest ?lx2) < length (lx_rest lx)"
        unfolding offset_def by (simp only:)
      with emit_word_finished [OF m2] show ?thesis by (simp add: e)
    qed
  qed
qed

section \<open>One token\<close>

text \<open>
  Every immediate annotation follows a value with no gap: \<open>prev\<close> is the token before the
  list.
\<close>

fun imm_ok :: "spanned_token option \<Rightarrow> spanned_token list \<Rightarrow> bool" where
  "imm_ok prev [] = True"
| "imm_ok prev (x # xs) =
     ((fst x = ImmediateAt \<longrightarrow>
        (case prev of None \<Rightarrow> False
         | Some p \<Rightarrow> value_ending (fst p) \<and> span_end (snd p) = span_start (snd x)))
      \<and> imm_ok (Some x) xs)"

definition last_opt :: "'a option \<Rightarrow> 'a list \<Rightarrow> 'a option" where
  "last_opt prev xs = (if xs = [] then prev else Some (last xs))"

lemma imm_ok_append: "imm_ok prev (xs @ ys) \<longleftrightarrow> imm_ok prev xs \<and> imm_ok (last_opt prev xs) ys"
  by (induction xs arbitrary: prev) (auto simp: last_opt_def)

lemma imm_ok_none: "\<forall>x \<in> set xs. fst x \<noteq> ImmediateAt \<Longrightarrow> imm_ok prev xs"
  by (induction xs arbitrary: prev) auto

text \<open>The value-ending flag is right at the head of the token loop.\<close>

definition nw_ok :: "lexer \<Rightarrow> bool" where
  "nw_ok lx \<longleftrightarrow>
     (lx_last_was_nonwhitespace lx \<longrightarrow>
        lx_tokens lx \<noteq> []
        \<and> (value_ending (fst (last (lx_tokens lx)))
             \<and> span_end (snd (last (lx_tokens lx))) = current_position lx
           \<or> lx_rest lx = [] \<or> hd (lx_rest lx) = NL \<or> hd (lx_rest lx) = CR))"

text \<open>A scan that keeps the lexer's invariant: positions, spans, depth, annotations.\<close>

definition good :: "lexer \<Rightarrow> lexer \<Rightarrow> bool" where
  "good lx lx' \<longleftrightarrow>
     (\<exists>ts. step ts lx lx') \<and> nw_ok lx'
     \<and> (imm_ok None (lx_tokens lx) \<longrightarrow> imm_ok None (lx_tokens lx'))"

lemma good_finished: "finished lx lx' \<Longrightarrow> good lx lx'"
proof -
  assume "finished lx lx'"
  then obtain ts where ts: "step ts lx lx'" "ts \<noteq> []" "\<forall>x \<in> set ts. fst x \<noteq> ImmediateAt"
    "lx_last_was_nonwhitespace lx' \<longrightarrow>
       value_ending (fst (last ts)) \<and> span_end (snd (last ts)) = current_position lx'"
    unfolding finished_def by blast
  from ts(1) have "lx_tokens lx' = lx_tokens lx @ ts" by (simp add: step_def)
  with ts show ?thesis
    unfolding good_def nw_ok_def by (auto simp: imm_ok_append imm_ok_none)
qed

lemma step_open_bracket:
  assumes "lx_rest lx = c # cs" and "lx_bracket_depth lx < MAX_LEX_DEPTH" and "\<not> lx_last_was_nonwhitespace lx"
  shows "finished lx (emit OpenBracket (current_position lx)
    (set_depth (lx_bracket_depth (advance lx) + 1) (advance lx)))"
proof -
  let ?r = "emit OpenBracket (current_position lx)
    (set_depth (lx_bracket_depth (advance lx) + 1) (advance lx))"
  have m: "mv lx (advance lx)" by simp
  then have "step [(OpenBracket, make_span (advance lx) (current_position lx) (current_position (advance lx)))] lx ?r"
    using assms by (auto simp: mv_def step_def lex_defs depth_step_def weight_def span_new_def
        span_start_def span_end_def)
  with assms(3) show ?thesis
    unfolding finished_def by (intro exI) auto
qed

lemma step_close_bracket:
  assumes "lx_rest lx = c # cs"
  shows "finished lx (set_nonws True (emit CloseBracket (current_position lx)
    (set_depth (lx_bracket_depth (advance lx) - 1) (advance lx))))"
proof -
  let ?r = "set_nonws True (emit CloseBracket (current_position lx)
    (set_depth (lx_bracket_depth (advance lx) - 1) (advance lx)))"
  have m: "mv lx (advance lx)" by simp
  then have "step [(CloseBracket, make_span (advance lx) (current_position lx) (current_position (advance lx)))] lx ?r"
    using assms by (auto simp: mv_def step_def lex_defs depth_step_def weight_def span_new_def
        span_start_def span_end_def)
  then show ?thesis
    unfolding finished_def
    by (intro exI [of _ "[(CloseBracket, make_span (advance lx) (current_position lx) (current_position (advance lx)))]"])
      (auto simp: value_ending_def)
qed

lemma single_finished:
  assumes "t \<notin> {OpenBracket, CloseBracket, ImmediateAt}" and "\<not> lx_last_was_nonwhitespace lx"
    and "tok_range t"
  shows "finished lx (single t lx)"
  unfolding single_def using assms by (intro finished_emit_off) auto

lemma had_ws_simps [simp]:
  "lx_had_whitespace_before (advance lx) = lx_had_whitespace_before lx"
  "lx_had_whitespace_before (set_after_dot b lx) = lx_had_whitespace_before lx"
  "lx_had_whitespace_before (set_nonws b lx) = lx_had_whitespace_before lx"
  "lx_had_whitespace_before (set_had_ws b lx) = b"
  by (auto simp: advance_def new_line_def lex_defs split: list.splits)

lemma finished_strict:
  "lx_rest lx = c # cs \<Longrightarrow> mv (advance lx) lx1 \<Longrightarrow> finished lx lx' \<Longrightarrow> lx_rest lx' = lx_rest lx1 \<Longrightarrow>
   good lx lx' \<and> length (lx_rest lx') < length (lx_rest lx)"
  using mv_advance_strict [of lx lx1] good_finished by simp

text \<open>
  What \<open>next_token\<close> is called with: the flag \<open>had_whitespace_before\<close> clear means no gap
  after the last token.
\<close>

definition gap_ok :: "lexer \<Rightarrow> bool" where
  "gap_ok lx \<longleftrightarrow>
     (lx_last_was_nonwhitespace lx \<and> \<not> lx_had_whitespace_before lx \<longrightarrow>
        lx_tokens lx \<noteq> [] \<and> value_ending (fst (last (lx_tokens lx)))
        \<and> span_end (snd (last (lx_tokens lx))) = current_position lx)"

lemma at_good:
  assumes c: "lx_rest lx = c # cs"
    and t: "t = (if \<not> lx_had_whitespace_before lx \<and> lx_last_was_nonwhitespace lx then ImmediateAt else At)"
    and r: "lx' = emit t (current_position lx) (set_nonws False (advance (set_after_dot False lx)))"
  shows "(gap_ok lx \<longrightarrow> good lx lx') \<and> length (lx_rest lx') < length (lx_rest lx)"
proof -
  let ?lx1 = "set_nonws False (advance (set_after_dot False lx))"
  have m: "mv lx ?lx1" by (meson mv_trans mv_advance mv_setters)
  have st: "step [(t, make_span ?lx1 (current_position lx) (current_position ?lx1))] lx lx'"
    unfolding r by (rule step_emit [OF m]) (auto simp: t)
  then have tk: "lx_tokens lx' = lx_tokens lx @ [(t, make_span ?lx1 (current_position lx) (current_position ?lx1))]"
    by (simp add: step_def)
  have "imm_ok None (lx_tokens lx) \<longrightarrow> imm_ok None (lx_tokens lx')" if "gap_ok lx"
    using that by (auto simp: tk imm_ok_append last_opt_def gap_ok_def t)
  moreover have "nw_ok lx'" by (simp add: nw_ok_def r)
  ultimately show ?thesis using st c by (auto simp: good_def r)
qed

lemma next_token_good:
  assumes c: "lx_rest lx = c # cs" and nb: "c \<notin> {SPACE, TAB, CR, NL}"
    and r: "next_token lx = Inr lx'"
  shows "(suffix (lx_rest lx) (lx_input lx) \<and> gap_ok lx \<longrightarrow> good lx lx') \<and> length (lx_rest lx') < length (lx_rest lx)"
proof -
  let ?d = "set_after_dot False lx"
  have dpos: "current_position ?d = current_position lx" by simp
  have dmv: "mv lx ?d" by simp
  have lift: "finished lx lx' \<and> length (lx_rest lx') < length (lx_rest lx)"
    if "finished a lx' \<and> length (lx_rest lx') < length (lx_rest a)" "mv lx a" for a
    using that finished_mv mv_length by fastforce
  have simple: "good lx (single t (set_nonws False ?d))
      \<and> length (lx_rest (single t (set_nonws False ?d))) < length (lx_rest lx)"
    if "t \<notin> {OpenBracket, CloseBracket, ImmediateAt}" "tok_range t" for t
    using finished_mv [OF mv_trans [OF dmv mv_setters(1)] single_finished [OF that(1) _ that(2), of "set_nonws False ?d"]]
      c good_finished by (auto simp: single_def)
  have word: "(suffix (lx_rest lx) (lx_input lx) \<longrightarrow> good lx lx') \<and> length (lx_rest lx') < length (lx_rest lx)"
    if "is_var_ident_char c" "lex_bare_word_or_number lx = Inr lx'"
    using bare_word_finished [OF c that] good_finished by blast
  note nt = r [unfolded next_token_def Let_def, simplified peek_char_simps(2) [OF c] option.case]
  consider "c = uc CHR ''#''" | "c = uc CHR ''[''" | "c = uc CHR '']''" | "c = uc CHR '':''"
    | "c = uc CHR '';''" | "c = uc CHR ''@''" | "c = DQ" | "c = uc CHR ''|''"
    | "c = uc CHR ''.''" | "c = uc CHR ''$''"
    | "is_var_ident_char c \<and> c \<noteq> uc CHR ''$''"
    using nb by (auto simp: is_var_ident_char_def)
  then show ?thesis
  proof cases
    case 1
    with nt have "lex_comment ?d = Inr lx'" by simp
    from lex_comment_step [OF this] c obtain w s where
      s: "step [(Comment w, s)] ?d lx'" "length (lx_rest lx') < length (lx_rest ?d)"
      "lx_rest lx' = [] \<or> hd (lx_rest lx') = NL \<or> hd (lx_rest lx') = CR" by auto
    have s': "step [(Comment w, s)] lx lx'" using mv_then_step [OF dmv s(1)] .
    then have "lx_tokens lx' = lx_tokens lx @ [(Comment w, s)]" by (simp add: step_def)
    with s' s(2,3) show ?thesis by (auto simp: good_def nw_ok_def imm_ok_append)
  next
    case 2
    let ?e = "set_nonws False ?d"
    from 2 nt have d: "lx_bracket_depth ?e < MAX_LEX_DEPTH"
      and e: "lx' = emit OpenBracket (current_position ?e)
        (set_depth (lx_bracket_depth (advance ?e) + 1) (advance ?e))"
      by (auto simp: fail_here_def split: if_splits)
    have "finished ?e lx'" unfolding e by (rule step_open_bracket) (use c d in auto)
    with lift [of ?e] c good_finished show ?thesis
      by (auto simp: e intro: mv_trans [OF mv_setters(2) mv_setters(1)])
  next
    case 3
    with nt have e: "lx' = set_nonws True (emit CloseBracket (current_position ?d)
        (set_depth (lx_bracket_depth (advance ?d) - 1) (advance ?d)))" by simp
    have "finished ?d lx'" unfolding e by (rule step_close_bracket) (use c in auto)
    with lift [of ?d] c good_finished show ?thesis by (auto simp: e)
  next
    case 4
    with nt simple [of Colon] show ?thesis by auto
  next
    case 5
    with nt simple [of Semicolon] show ?thesis by auto
  next
    case 6
    with nt at_good [OF c refl] show ?thesis by simp
  next
    case 7
    with nt have "lex_string_literal [] ?d = Inr lx'" by simp
    with lex_string_finished [of ?d] lift [of ?d] c 7 good_finished show ?thesis by simp
  next
    case 8
    with nt simple [of Pipe] show ?thesis by auto
  next
    case 9
    let ?n = "set_nonws False lx"
    let ?en = "set_after_dot False ?n"
    from 9 nt have "lx' = emit Ellipsis (current_position lx) (advance (advance (advance ?en)))
        \<or> lx' = set_after_dot True (single Dot ?n)"
      by (auto split: if_splits)
    then show ?thesis
    proof
      assume e: "lx' = emit Ellipsis (current_position lx) (advance (advance (advance ?en)))"
      have m: "mv lx (advance (advance (advance ?en)))" by (meson mv_trans mv_advance mv_setters)
      have "finished lx lx'" unfolding e by (rule finished_emit_off [OF m]) auto
      then show ?thesis using c good_finished by (auto simp: e)
    next
      assume e: "lx' = set_after_dot True (single Dot ?n)"
      have "finished ?n (single Dot ?n)" by (rule single_finished) auto
      from finished_mv [OF mv_setters(1) finished_after_dot [OF this]] have "finished lx lx'"
        unfolding e .
      then show ?thesis using c good_finished by (auto simp: e single_def)
    qed
  next
    case 10
    with nt have "lex_var_ref ?d = Inr lx'" by simp
    with lex_var_ref_finished [of ?d] lift [of ?d] c good_finished show ?thesis by simp
  next
    case 11
    have "(c = uc CHR ''i'' \<and> lex_string_literal (us ''i'') (advance ?d) = Inr lx' \<and> peek_ahead lx 1 = Some DQ)
        \<or> lex_doc_separator ?d = Inr lx' \<or> lex_bare_word_or_number lx = Inr lx'"
      using nt nb 11 by (auto simp: is_var_ident_char_def split: if_splits)
    then show ?thesis
    proof (elim disjE conjE)
      assume i: "lex_string_literal (us ''i'') (advance ?d) = Inr lx'" "peek_ahead lx 1 = Some DQ"
      from i(2) c have "peek_char (advance ?d) = Some DQ" by (simp add: peek_ahead_def peek_char_def)
      from lift [OF lex_string_finished [OF this i(1)]] good_finished show ?thesis
        by (meson mv_trans mv_advance mv_setters)
    next
      assume "lex_doc_separator ?d = Inr lx'"
      with lex_doc_separator_finished [of ?d] lift [of ?d] c good_finished show ?thesis by simp
    next
      assume "lex_bare_word_or_number lx = Inr lx'"
      with word 11 show ?thesis by blast
    qed
  qed
qed

end
