(* ===== verification/Tokenize.thy ===== *)
theory Tokenize
  imports Lexer_Steps
begin

text \<open>
  \<open>Lexer::tokenize\<close> and \<open>tokenize\<close> of \<^verbatim>\<open>src/lexer.rs\<close>, their termination, and the
  invariant every run of the token loop keeps.
\<close>

section \<open>White space\<close>

definition is_blank :: "uchar \<Rightarrow> bool" where
  "is_blank c \<longleftrightarrow> c \<in> {SPACE, TAB, CR, NL}"

lemma skip_unfold:
  "lx_rest lx = [] \<Longrightarrow> skip_whitespace_except_newline lx = lx"
  "lx_rest lx = c # cs \<Longrightarrow> \<not> is_blank c \<Longrightarrow> skip_whitespace_except_newline lx = lx"
  by (simp_all add: skip_whitespace_except_newline.simps [of lx] is_blank_def)

text \<open>What follows a skipped newline or blank: the gap flag is set and stays set.\<close>

definition skipped :: "lexer \<Rightarrow> lexer \<Rightarrow> bool" where
  "skipped lx lx' \<longleftrightarrow>
     (\<exists>ts. step ts lx lx' \<and> (\<forall>x \<in> set ts. fst x = Newline))
     \<and> (lx_rest lx' = [] \<or> \<not> is_blank (hd (lx_rest lx')))
     \<and> (lx_had_whitespace_before lx \<longrightarrow> lx_had_whitespace_before lx')
     \<and> (lx' = lx \<or> lx_had_whitespace_before lx')"

lemma skipped_step:
  assumes "step ts lx lx1" and "\<forall>x \<in> set ts. fst x = Newline" and "lx_had_whitespace_before lx1"
    and "skipped lx1 lx'"
  shows "skipped lx lx'"
proof -
  from assms(4) obtain ts' where "step ts' lx1 lx'" "\<forall>x \<in> set ts'. fst x = Newline"
    by (auto simp: skipped_def)
  with step_trans [OF assms(1)] assms(2) have
    "step (ts @ ts') lx lx'" "\<forall>x \<in> set (ts @ ts'). fst x = Newline" by auto
  with assms(3,4) show ?thesis unfolding skipped_def by blast
qed

lemma skip_skipped: "skipped lx (skip_whitespace_except_newline lx)"
proof (induction lx rule: skip_whitespace_except_newline.induct)
  case (1 lx)
  show ?case
  proof (cases "lx_rest lx")
    case Nil
    have "step [] lx lx" using mv_refl mv_step by blast
    with Nil show ?thesis unfolding skipped_def skip_unfold(1) [OF Nil] by auto
  next
    case (Cons c cs)
    note pk = peek_char_simps(2) [OF Cons]
    let ?n = "set_nonws False (set_had_ws True lx)"
    have mn: "mv lx (advance ?n)" by (meson mv_trans mv_advance mv_setters)
    consider "c = SPACE \<or> c = TAB" | "c = CR" | "c = NL" | "\<not> is_blank c"
      by (auto simp: is_blank_def)
    then show ?thesis
    proof cases
      case 1
      let ?a = "advance (set_had_ws True lx)"
      have "skip_whitespace_except_newline lx = skip_whitespace_except_newline ?a"
        using 1 by (subst skip_whitespace_except_newline.simps) (simp add: pk)
      moreover have "step [] lx ?a" using mv_step by (meson mv_trans mv_advance mv_setters)
      ultimately show ?thesis
        using skipped_step [OF _ _ _ "1.IH"(1) [OF pk 1]] by simp
    next
      case 2
      let ?lx2 = "if peek_char (advance ?n) = Some NL then advance (advance ?n) else advance ?n"
      let ?e = "emit Newline (current_position lx) ?lx2"
      have "skip_whitespace_except_newline lx = skip_whitespace_except_newline ?e"
        using 2 by (subst skip_whitespace_except_newline.simps) (simp add: pk Let_def)
      moreover have "mv lx ?lx2" using mn by (auto intro: mv_trans)
      then have "step [(Newline, make_span ?lx2 (current_position lx) (current_position ?lx2))] lx ?e"
        by (rule step_emit) auto
      moreover have "lx_had_whitespace_before ?e" by (simp add: lex_defs)
      moreover from 2 have "\<not> (c = SPACE \<or> c = TAB)" by simp
      from "1.IH"(2) [OF pk this 2 refl refl refl] have "skipped ?e (skip_whitespace_except_newline ?e)" .
      ultimately show ?thesis using skipped_step by simp
    next
      case 3
      let ?e = "emit Newline (current_position lx) (advance ?n)"
      have "skip_whitespace_except_newline lx = skip_whitespace_except_newline ?e"
        using 3 by (subst skip_whitespace_except_newline.simps) (simp add: pk Let_def)
      moreover have "step [(Newline, make_span (advance ?n) (current_position lx) (current_position (advance ?n)))] lx ?e"
        using mn by (rule step_emit) auto
      moreover have "lx_had_whitespace_before ?e" by (simp add: lex_defs)
      moreover from 3 have "\<not> (c = SPACE \<or> c = TAB)" "c \<noteq> CR" by simp_all
      from "1.IH"(3) [OF pk this 3 refl refl] have "skipped ?e (skip_whitespace_except_newline ?e)" .
      ultimately show ?thesis using skipped_step by simp
    next
      case 4
      have "step [] lx lx" using mv_refl mv_step by blast
      with 4 Cons show ?thesis unfolding skipped_def skip_unfold(2) [OF Cons 4] by auto
    qed
  qed
qed

lemma skip_length: "length (lx_rest (skip_whitespace_except_newline lx)) \<le> length (lx_rest lx)"
  using skip_skipped [of lx] step_length by (auto simp: skipped_def)

lemma next_token_strict:
  assumes "peek_char (skip_whitespace_except_newline lx) = Some c"
    and "next_token (skip_whitespace_except_newline lx) = Inr lx'"
  shows "length (lx_rest lx') < length (lx_rest lx)"
proof -
  let ?s = "skip_whitespace_except_newline lx"
  from assms(1) obtain cs where c: "lx_rest ?s = c # cs" by (auto simp: peek_char_Some_iff)
  have "c \<notin> {SPACE, TAB, CR, NL}"
    using skip_skipped [of lx] c by (auto simp: skipped_def is_blank_def)
  from next_token_good [OF c this assms(2)] skip_length [of lx] show ?thesis by linarith
qed

section \<open>The token loop\<close>

function tokenize_loop :: "lexer \<Rightarrow> lex_result" where
  "tokenize_loop lx =
     (case peek_char lx of
        None \<Rightarrow> Inr lx
      | Some _ \<Rightarrow>
          let lx1 = skip_whitespace_except_newline (set_had_ws False lx)
          in case peek_char lx1 of
               None \<Rightarrow> Inr lx1
             | Some _ \<Rightarrow>
                 (case next_token lx1 of
                    Inl e \<Rightarrow> Inl e
                  | Inr lx2 \<Rightarrow> tokenize_loop lx2))"
  by pat_completeness auto
termination
  by (relation "measure (\<lambda>lx. length (lx_rest lx))") (auto dest!: next_token_strict)

declare tokenize_loop.simps [simp del]

text \<open>\<open>Lexer::new(input, file_path).tokenize()\<close>.\<close>

definition tokenize :: "str \<Rightarrow> str \<Rightarrow> lex_error + spanned_token list" where
  "tokenize input file_path =
     bindE (tokenize_loop (lexer_new input file_path)) (\<lambda>lx. Inr (lx_tokens lx))"

section \<open>The invariant of the loop\<close>

definition loop_inv :: "lexer \<Rightarrow> bool" where
  "loop_inv lx \<longleftrightarrow>
     suffix (lx_rest lx) (lx_input lx) \<and> nw_ok lx \<and> imm_ok None (lx_tokens lx)
     \<and> (\<exists>ts. step ts (lexer_new (lx_input lx) (lx_file_path lx)) lx)"

lemma loop_inv_new: "loop_inv (lexer_new input f)"
proof -
  have "step [] (lexer_new input f) (lexer_new input f)" using mv_refl mv_step by blast
  then show ?thesis by (auto simp: loop_inv_def nw_ok_def lexer_new_def)
qed

lemma newline_imm_ok:
  "imm_ok None ts \<Longrightarrow> \<forall>x \<in> set vs. fst x = Newline \<Longrightarrow> imm_ok None (ts @ vs)"
  by (auto simp: imm_ok_append intro!: imm_ok_none)

text \<open>After the blanks: the loop invariant, and the gap flag \<open>next_token\<close> relies on.\<close>

lemma skip_inv:
  assumes "loop_inv lx" and "lx1 = skip_whitespace_except_newline (set_had_ws False lx)"
  shows "suffix (lx_rest lx1) (lx_input lx1)" and "imm_ok None (lx_tokens lx1)"
    and "\<exists>ts. step ts (lexer_new (lx_input lx1) (lx_file_path lx1)) lx1"
    and "lx_rest lx1 \<noteq> [] \<Longrightarrow> gap_ok lx1"
proof -
  let ?z = "set_had_ws False lx"
  from skip_skipped [of ?z] assms(2) obtain ts where
    ts: "step ts ?z lx1" "\<forall>x \<in> set ts. fst x = Newline"
    and nb: "lx_rest lx1 = [] \<or> \<not> is_blank (hd (lx_rest lx1))"
    and eq: "lx1 = ?z \<or> lx_had_whitespace_before lx1"
    by (auto simp: skipped_def)
  have st: "step ts lx lx1" using mv_then_step [OF mv_setters(3) ts(1)] .
  then have f: "suffix (lx_rest lx1) (lx_rest lx)" "lx_input lx1 = lx_input lx"
    "lx_file_path lx1 = lx_file_path lx" "lx_tokens lx1 = lx_tokens lx @ ts"
    by (simp_all add: step_def)
  with assms(1) show "suffix (lx_rest lx1) (lx_input lx1)"
    by (auto simp: loop_inv_def intro: suffix_order.trans)
  from f assms(1) ts(2) show "imm_ok None (lx_tokens lx1)"
    by (simp add: loop_inv_def newline_imm_ok)
  from assms(1) st show "\<exists>ts. step ts (lexer_new (lx_input lx1) (lx_file_path lx1)) lx1"
    by (auto simp: loop_inv_def f intro: step_trans)
  assume ne: "lx_rest lx1 \<noteq> []"
  from eq show "gap_ok lx1"
  proof
    assume e: "lx1 = ?z"
    with ne nb assms(1) show ?thesis
      by (auto simp: gap_ok_def loop_inv_def nw_ok_def is_blank_def lex_defs)
  next
    assume "lx_had_whitespace_before lx1"
    then show ?thesis by (simp add: gap_ok_def)
  qed
qed

lemma loop_inv_step:
  assumes "loop_inv lx" and "lx1 = skip_whitespace_except_newline (set_had_ws False lx)"
    and "peek_char lx1 = Some c" and "next_token lx1 = Inr lx2"
  shows "loop_inv lx2"
proof -
  from assms(3) obtain cs where c: "lx_rest lx1 = c # cs" by (auto simp: peek_char_Some_iff)
  then have ne: "lx_rest lx1 \<noteq> []" by simp
  have "c \<notin> {SPACE, TAB, CR, NL}"
    using skip_skipped [of "set_had_ws False lx"] c assms(2) by (auto simp: skipped_def is_blank_def)
  with next_token_good [OF c this assms(4)] skip_inv(1) [OF assms(1,2)] skip_inv(4) [OF assms(1,2) ne]
  have g: "good lx1 lx2" by blast
  then obtain ts where st: "step ts lx1 lx2" by (auto simp: good_def)
  then have f: "suffix (lx_rest lx2) (lx_rest lx1)" "lx_input lx2 = lx_input lx1"
    "lx_file_path lx2 = lx_file_path lx1" by (simp_all add: step_def)
  from skip_inv(3) [OF assms(1,2)] obtain vs where
    "step vs (lexer_new (lx_input lx1) (lx_file_path lx1)) lx1" by blast
  from step_trans [OF this st] f g skip_inv(1,2) [OF assms(1,2)] show ?thesis
    by (auto simp: loop_inv_def good_def intro: suffix_order.trans)
qed

text \<open>What a successful run ends in.\<close>

definition run_ok :: "lexer \<Rightarrow> bool" where
  "run_ok lx \<longleftrightarrow> lx_rest lx = [] \<and> imm_ok None (lx_tokens lx)
     \<and> (\<exists>ts. step ts (lexer_new (lx_input lx) (lx_file_path lx)) lx)"

lemma tokenize_loop_run_ok:
  "loop_inv lx \<Longrightarrow> tokenize_loop lx = Inr lx' \<Longrightarrow>
   run_ok lx' \<and> lx_input lx' = lx_input lx \<and> lx_file_path lx' = lx_file_path lx"
proof (induction lx rule: tokenize_loop.induct)
  case (1 lx)
  let ?lx1 = "skip_whitespace_except_newline (set_had_ws False lx)"
  note eq = "1.prems"(2) [unfolded tokenize_loop.simps [of lx] Let_def]
  have f1: "lx_input ?lx1 = lx_input lx" "lx_file_path ?lx1 = lx_file_path lx"
    using skip_skipped [of "set_had_ws False lx"]
    by (auto simp: skipped_def step_def set_had_ws_def)
  show ?case
  proof (cases "peek_char lx")
    case None
    with eq "1.prems"(1) show ?thesis
      by (auto simp: peek_char_None_iff run_ok_def loop_inv_def)
  next
    case p0: (Some c0)
    show ?thesis
    proof (cases "peek_char ?lx1")
      case None
      with eq p0 have "lx' = ?lx1" by simp
      with None f1 skip_inv(2,3) [OF "1.prems"(1) refl] show ?thesis
        by (auto simp: peek_char_None_iff run_ok_def)
    next
      case p1: (Some c1)
      with eq p0 obtain lx2 where n: "next_token ?lx1 = Inr lx2" and l: "tokenize_loop lx2 = Inr lx'"
        by (auto split: sum.splits)
      have inv: "loop_inv lx2" using loop_inv_step [OF "1.prems"(1) refl p1 n] .
      obtain cs where c: "lx_rest ?lx1 = c1 # cs" using p1 by (auto simp: peek_char_Some_iff)
      have "c1 \<notin> {SPACE, TAB, CR, NL}"
        using skip_skipped [of "set_had_ws False lx"] c by (auto simp: skipped_def is_blank_def)
      from next_token_good [OF c this n] skip_inv(1) [OF "1.prems"(1) refl]
        skip_inv(4) [OF "1.prems"(1) refl] c
      have "lx_input lx2 = lx_input ?lx1" "lx_file_path lx2 = lx_file_path ?lx1"
        by (auto simp: good_def step_def)
      with "1.IH" [OF p0 refl p1 n inv l] f1 show ?thesis by simp
    qed
  qed
qed

lemma tokenize_run:
  assumes "tokenize input f = Inr ts"
  obtains lx where "run_ok lx" "lx_tokens lx = ts" "lx_input lx = input" "lx_file_path lx = f"
proof -
  from assms obtain lx where lx: "tokenize_loop (lexer_new input f) = Inr lx" "lx_tokens lx = ts"
    by (auto simp: tokenize_def bindE_eq_Inr_iff)
  from tokenize_loop_run_ok [OF loop_inv_new lx(1)] lx(2) that [of lx] show ?thesis
    by (simp add: lexer_new_def)
qed

end
