(* ===== verification/Token_Format.thy ===== *)
theory Token_Format
  imports Tokenize
begin

text \<open>
  The literal formatters that accompany the lexer (\<open>fmt_int\<close>, \<open>fmt_string\<close>,
  \<open>fmt_bytes\<close> of \<^verbatim>\<open>src/lexer.rs\<close>), the escape processing of
  \<^verbatim>\<open>src/lower.rs\<close>, and the closed forms of the scanners on formatted text that the
  round trips rest on.
\<close>

section \<open>Formatters and escapes\<close>

definition fmt_int :: "int \<Rightarrow> str" where
  "fmt_int n = int_to_str n"

definition fmt_string_char :: "uchar \<Rightarrow> str" where
  "fmt_string_char c =
     (if c = DQ then [BSLASH, DQ]
      else if c = BSLASH then [BSLASH, BSLASH]
      else if c = NL then [BSLASH, uc CHR ''n'']
      else if c = CR then [BSLASH, uc CHR ''r'']
      else if c = TAB then [BSLASH, uc CHR ''t'']
      else [c])"

definition fmt_string :: "str \<Rightarrow> str" where
  "fmt_string s = [DQ] @ concat (map fmt_string_char s) @ [DQ]"

fun fmt_bytes_entries :: "nat \<Rightarrow> nat list \<Rightarrow> str" where
  "fmt_bytes_entries i [] = []"
| "fmt_bytes_entries i (b # bs) =
     (if i > 0 then us ''  '' else []) @ nat_to_str i @ us '': '' @ nat_to_str b
       @ fmt_bytes_entries (i + 1) bs"

definition fmt_bytes :: "8 word list \<Rightarrow> str" where
  "fmt_bytes bytes = us ''[bytes-of ['' @ fmt_bytes_entries 0 (map unat bytes) @ us '']]''"

fun process_escapes :: "str \<Rightarrow> str \<Rightarrow> str" where
  "process_escapes [] delimiter = []"
| "process_escapes (c # cs) delimiter =
     (if c = BSLASH then
        (case cs of
           [] \<Rightarrow> [BSLASH]
         | d # ds \<Rightarrow>
             if d = uc CHR ''n'' then NL # process_escapes ds delimiter
             else if d = uc CHR ''t'' then TAB # process_escapes ds delimiter
             else if d = uc CHR ''r'' then CR # process_escapes ds delimiter
             else if d = BSLASH then BSLASH # process_escapes ds delimiter
             else if nth_opt delimiter 0 = Some d then d # process_escapes ds delimiter
             else BSLASH # d # process_escapes ds delimiter)
      else c # process_escapes cs delimiter)"

text \<open>Formatting a string and processing the escapes of its content gives the string back.\<close>

lemma process_escapes_fmt_char:
  "process_escapes (fmt_string_char c @ s) [DQ] = c # process_escapes s [DQ]"
  by (auto simp: fmt_string_char_def)

lemma process_escapes_fmt:
  "process_escapes (concat (map fmt_string_char s)) [DQ] = s"
  by (induction s) (simp_all add: process_escapes_fmt_char del: process_escapes.simps(2))

section \<open>Scanners on plain text\<close>

text \<open>The state after \<open>n\<close> characters of one line.\<close>

definition along :: "nat \<Rightarrow> str \<Rightarrow> lexer \<Rightarrow> lexer" where
  "along n suf lx = lx\<lparr>lx_column := lx_column lx + n, lx_rest := suf\<rparr>"

lemma along_simps [simp]:
  "lx_rest (along n suf lx) = suf" "lx_input (along n suf lx) = lx_input lx"
  "lx_file_path (along n suf lx) = lx_file_path lx" "lx_tokens (along n suf lx) = lx_tokens lx"
  "lx_after_access_dot (along n suf lx) = lx_after_access_dot lx"
  "along n suf (along m suf' lx) = along (m + n) suf lx"
  "current_position (along n suf lx) = (lx_line lx, lx_column lx + n)"
  by (simp_all add: along_def current_position_def)

lemma along_0: "lx_rest lx = suf \<Longrightarrow> along 0 suf lx = lx"
  by (auto simp: along_def)

lemma advance_along:
  "lx_rest lx = c # cs \<Longrightarrow> c \<noteq> NL \<Longrightarrow> c \<noteq> CR \<Longrightarrow> advance lx = along 1 cs lx"
  by (simp add: advance_def along_def)

lemma collect_digits_along:
  "lx_rest lx = ds @ suf \<Longrightarrow> list_all is_ascii_digit ds \<Longrightarrow>
   (case suf of [] \<Rightarrow> True | c # _ \<Rightarrow> \<not> is_ascii_digit c \<and> c \<noteq> uc CHR ''_'') \<Longrightarrow>
   collect_digits s lx = Inr (along (length ds) suf lx)"
proof (induction ds arbitrary: lx)
  case Nil
  then show ?case
    by (subst collect_digits.simps) (auto simp: along_0 split: list.splits)
next
  case (Cons d ds)
  then have d: "is_ascii_digit d" "d \<noteq> NL" "d \<noteq> CR" "d \<noteq> uc CHR ''_''"
    by (auto simp: is_ascii_digit_def)
  have a: "advance lx = along 1 (ds @ suf) lx"
    using Cons.prems(1) d by (intro advance_along) auto
  have "collect_digits s lx = collect_digits s (advance lx)"
    using Cons.prems(1) d by (subst collect_digits.simps) simp
  also have "\<dots> = Inr (along (length ds) suf (along 1 (ds @ suf) lx))"
    unfolding a using Cons.prems by (intro Cons.IH) auto
  finally show ?case by simp
qed

section \<open>Decimal numbers\<close>

lemma acc_digits_append:
  "acc_digits r lo hi sg a (xs @ ys) = bindE (acc_digits r lo hi sg a xs) (\<lambda>v. acc_digits r lo hi sg v ys)"
  by (induction xs arbitrary: a) (simp_all add: acc_digits.simps(2) Let_def split: option.splits)

lemma acc_digits_nat_to_str:
  assumes "lo \<le> sg * int n" "sg * int n \<le> hi" "lo \<le> 0" "0 \<le> hi" "sg = 1 \<or> sg = -1"
  shows "acc_digits 10 lo hi sg 0 (nat_to_str n) = Inr (sg * int n)"
  using assms
proof (induction n rule: nat_to_str.induct)
  case (1 n)
  have d: "to_digit 10 (48 + k) = Some k" if "k < 10" for k
    using that by (simp add: to_digit_def is_ascii_digit_def)
  show ?case
  proof (cases "n < 10")
    case True
    with "1.prems" show ?thesis
      by (auto simp: nat_to_str.simps [of n] acc_digits.simps(2) d Let_def)
  next
    case False
    have q: "int n = int (n div 10) * 10 + int (n mod 10)"
      by (metis mult.commute of_nat_add of_nat_mult of_nat_numeral mult_div_mod_eq)
    have b: "lo \<le> sg * int (n div 10)" "sg * int (n div 10) \<le> hi"
      using "1.prems" by auto
    have "acc_digits 10 lo hi sg 0 (nat_to_str (n div 10)) = Inr (sg * int (n div 10))"
      using False "1.prems" b by (intro "1.IH")
    moreover have "sg * int (n div 10) * 10 + sg * int (n mod 10) = sg * int n"
      using q by (simp add: algebra_simps)
    ultimately show ?thesis
      using False "1.prems"
      by (simp add: nat_to_str.simps [of n] acc_digits_append acc_digits.simps(2) d Let_def)
  qed
qed

lemma nat_to_str_all_digits: "list_all is_ascii_digit (nat_to_str n)"
  by (simp add: list_all_iff nat_to_str_digits)

lemma nat_to_str_head:
  obtains d ds where "nat_to_str n = d # ds" "is_ascii_digit d" "list_all is_ascii_digit ds"
    "d = 48 \<Longrightarrow> ds = []"
proof -
  obtain d ds where e: "nat_to_str n = d # ds" by (cases "nat_to_str n") auto
  have "d = 48 \<Longrightarrow> ds = []"
    using e hd_nat_to_str [of n] by (cases "n < 10") (auto simp: nat_to_str.simps [of n])
  with e nat_to_str_all_digits [of n] that show ?thesis by auto
qed

lemma parse_i64_int_to_str:
  assumes "i64_min \<le> n" "n \<le> i64_max"
  shows "parse_i64 (int_to_str n) = Inr n"
proof (cases "n < 0")
  case True
  have "acc_digits 10 i64_min i64_max (-1) 0 (nat_to_str (nat (- n))) = Inr (-1 * int (nat (- n)))"
    using assms True by (intro acc_digits_nat_to_str) (auto simp: i64_min_def i64_max_def)
  with True show ?thesis
    by (simp add: parse_i64_def int_to_str_def i64_from_str_radix_def)
next
  case False
  obtain d ds where e: "nat_to_str (nat n) = d # ds" "is_ascii_digit d"
    by (rule nat_to_str_head)
  have "acc_digits 10 i64_min i64_max 1 0 (nat_to_str (nat n)) = Inr (1 * int (nat n))"
    using assms False by (intro acc_digits_nat_to_str) (auto simp: i64_min_def i64_max_def)
  with False e show ?thesis
    by (auto simp: parse_i64_def int_to_str_def i64_from_str_radix_def is_ascii_digit_def)
qed

lemma strip_underscores_digits: "list_all is_ascii_digit ds \<Longrightarrow> strip_underscores ds = ds"
  by (induction ds) (auto simp: strip_underscores_def is_ascii_digit_def)

lemma trim_end_u_digits:
  assumes "list_all is_ascii_digit ds"
  shows "trim_end_u (pre @ ds) = (if ds = [] then trim_end_u pre else pre @ ds)"
proof (cases ds rule: rev_cases)
  case (snoc es d)
  with assms have "d \<noteq> uc CHR ''u''" by (auto simp: is_ascii_digit_def)
  with snoc show ?thesis by (simp add: trim_end_u_def)
qed simp

end
