(* ===== verification/Token_Roundtrip.thy ===== *)
theory Token_Roundtrip
  imports Token_Format
begin

text \<open>
  What the tokenizer does on formatted literals: the text of an integer is lexed to the one
  token of that integer, and the text of a string to the one literal whose content, with
  its escapes processed, is the string.
\<close>

section \<open>A run of one token\<close>

lemma tokenize_one:
  assumes c: "input = c # cs" "\<not> is_blank c"
    and n: "next_token (lexer_new input f) = Inr lx" and r: "lx_rest lx = []"
  shows "tokenize input f = Inr (lx_tokens lx)"
proof -
  let ?l = "lexer_new input f"
  have s: "set_had_ws False ?l = ?l" by (simp add: lexer_new_def set_had_ws_def)
  have rest: "lx_rest ?l = c # cs" using c by (simp add: lexer_new_def)
  have "tokenize_loop ?l = tokenize_loop lx"
    using rest n by (subst tokenize_loop.simps) (simp add: s skip_unfold(2) [OF rest c(2)] Let_def)
  also have "\<dots> = Inr lx" using r by (subst tokenize_loop.simps) simp
  finally show ?thesis by (simp add: tokenize_def)
qed

section \<open>Integers\<close>

lemma lex_decimal_all_digits:
  assumes "lx_rest lx = d # ds" "list_all is_ascii_digit (d # ds)"
  shows "lex_decimal start ws neg acc lx
    = emit_integer start ws neg (along (Suc (length ds)) [] lx)"
proof -
  have d: "d \<noteq> NL" "d \<noteq> CR" using assms by (auto simp: is_ascii_digit_def)
  have "collect_digits start (advance lx) = Inr (along (Suc (length ds)) [] lx)"
    using collect_digits_along [of "along 1 ds lx" ds "[]" start] assms
    by (simp add: advance_along [OF assms(1) d])
  then show ?thesis
    by (simp add: lex_decimal_def opt_is_def opt_digit_def peek_ahead_def)
qed

lemma trim_end_u_int: "trim_end_u (int_to_str n) = int_to_str n"
  using trim_end_u_digits [OF nat_to_str_all_digits, of "[uc CHR ''-'']"]
    trim_end_u_digits [OF nat_to_str_all_digits, of "[]"]
  by (auto simp: int_to_str_def)

lemma strip_underscores_int: "strip_underscores (int_to_str n) = int_to_str n"
  using strip_underscores_digits [OF nat_to_str_all_digits]
  by (auto simp: int_to_str_def strip_underscores_def)

lemma emit_integer_whole:
  assumes "lx_rest lx = []" "lx_input lx = int_to_str n" "i64_min \<le> n" "n \<le> i64_max"
  shows "emit_integer start 0 neg lx = Inr (set_nonws True (emit (IntTok n) start lx))"
  using assms
  by (simp add: emit_integer_def Let_def check_no_trailing_ident_chars_def offset_def slice_def
      trim_end_u_int strip_underscores_int parse_i64_int_to_str emit_i64_def)

lemma next_token_digit:
  assumes "lx_rest lx = d # ds" "is_ascii_digit d"
  shows "next_token lx = lex_bare_word_or_number lx"
  using assms by (auto simp: next_token_def Let_def is_ascii_digit_def)

lemma next_token_minus:
  assumes "lx_rest lx = uc CHR ''-'' # d # ds" "is_ascii_digit d"
  shows "next_token lx = lex_bare_word_or_number lx"
  using assms by (auto simp: next_token_def Let_def is_ascii_digit_def peek_ahead_def)

lemma lex_number_nonneg:
  assumes "lx_rest lx = d # ds" "list_all is_ascii_digit (d # ds)" "d = 48 \<Longrightarrow> ds = []"
  shows "lex_number start ws acc lx = lex_decimal start ws
    (nth_opt (lx_input lx) ws = Some (uc CHR ''-'')) acc lx"
  using assms
  by (cases "d = 48") (auto simp: lex_number_def Let_def opt_is_def opt_digit_def peek_ahead_def
      split: option.splits)

lemma next_token_int:
  assumes "i64_min \<le> n" "n \<le> i64_max"
  shows "\<exists>lx. next_token (lexer_new (int_to_str n) f) = Inr lx \<and> lx_rest lx = []
    \<and> lx_tokens lx = [(IntTok n, span_new 1 1 1 (1 + length (int_to_str n)) f)]"
proof -
  define l where "l = lexer_new (int_to_str n) f"
  obtain d ds where d: "nat_to_str (nat \<bar>n\<bar>) = d # ds" "is_ascii_digit d"
    "list_all is_ascii_digit ds" "d = 48 \<Longrightarrow> ds = []" by (rule nat_to_str_head [of "nat \<bar>n\<bar>"]) blast
  have l: "lx_rest l = int_to_str n" "lx_input l = int_to_str n" "lx_line l = 1"
    "lx_column l = 1" "lx_tokens l = []" "lx_file_path l = f"
    by (simp_all add: l_def lexer_new_def)
  have o: "offset l = 0" by (simp add: offset_def l)
  have dot: "lx_after_access_dot l = False" "set_after_dot False l = l"
    by (simp_all add: l_def lexer_new_def set_after_dot_def)
  let ?e = "along (length (int_to_str n)) [] l"
  have "next_token l = Inr (set_nonws True (emit (IntTok n) (1, 1) ?e))"
  proof (cases "n < 0")
    case True
    then have t: "int_to_str n = uc CHR ''-'' # d # ds" using d by (simp add: int_to_str_def)
    let ?a = "along 1 (d # ds) l"
    have a: "advance l = ?a" using l t by (intro advance_along) auto
    have "next_token l = lex_bare_word_or_number l"
      using l t d by (intro next_token_minus) auto
    also have "\<dots> = lex_number (1, 1) 0 False ?a"
      using l t d by (subst lex_bare_word_or_number.simps)
        (simp add: Let_def dot a o opt_digit_def current_position_def)
    also have "\<dots> = lex_decimal (1, 1) 0 True False ?a"
      using l t by (simp add: lex_number_def)
    also have "\<dots> = emit_integer (1, 1) 0 True (along (Suc (length ds)) [] ?a)"
      using d by (intro lex_decimal_all_digits) auto
    also have "along (Suc (length ds)) [] ?a = ?e" using t by simp
    finally show ?thesis using emit_integer_whole [of ?e] l assms by simp
  next
    case False
    then have t: "int_to_str n = d # ds" using d by (simp add: int_to_str_def)
    have "next_token l = lex_bare_word_or_number l"
      using l t d by (intro next_token_digit) auto
    also have "\<dots> = lex_number (1, 1) 0 False l"
      using l t d by (subst lex_bare_word_or_number.simps)
        (auto simp: Let_def dot o opt_digit_def current_position_def is_ascii_digit_def)
    also have "\<dots> = lex_decimal (1, 1) 0 False False l"
      using l t d by (subst lex_number_nonneg [of _ d ds]) (auto simp: is_ascii_digit_def)
    also have "\<dots> = emit_integer (1, 1) 0 False ?e"
      using l t d by (subst lex_decimal_all_digits [of _ d ds]) auto
    finally show ?thesis using emit_integer_whole [of ?e] l assms by simp
  qed
  then show ?thesis
    unfolding l_def [symmetric] by (simp add: lex_defs l numeral_3_eq_3) (simp add: along_def l numeral_3_eq_3)
qed

text \<open>C24: Every \<open>i64\<close> formats to a text that the tokenizer reads back as that one integer.\<close>

theorem tokenize_fmt_int:
  assumes "i64_min \<le> n" "n \<le> i64_max"
  shows "tokenize (fmt_int n) f = Inr [(IntTok n, span_new 1 1 1 (1 + length (fmt_int n)) f)]"
proof -
  obtain lx where lx: "next_token (lexer_new (int_to_str n) f) = Inr lx" "lx_rest lx = []"
    "lx_tokens lx = [(IntTok n, span_new 1 1 1 (1 + length (int_to_str n)) f)]"
    using next_token_int [OF assms] by blast
  obtain d ds where d: "nat_to_str (nat \<bar>n\<bar>) = d # ds" "is_ascii_digit d" by (rule nat_to_str_head [of "nat \<bar>n\<bar>"]) blast
  then obtain c cs where "int_to_str n = c # cs" "\<not> is_blank c"
    by (cases "n < 0") (auto simp: int_to_str_def is_blank_def is_ascii_digit_def)
  from tokenize_one [OF this lx(1,2)] lx(3) show ?thesis by (simp add: fmt_int_def)
qed

theorem tokenize_fmt_int_witness:
  "tokenize (fmt_int (-42)) (us ''a.llt'')
    = Inr [(IntTok (-42), span_new 1 1 1 4 (us ''a.llt''))]"
proof -
  have "fmt_int (-42) = us ''-42''"
    by (simp add: fmt_int_def int_to_str_def nat_to_str.simps)
  then show ?thesis
    using tokenize_fmt_int [of "-42" "us ''a.llt''"] by (simp add: i64_min_def i64_max_def eval_nat_numeral)
qed

section \<open>Strings\<close>

text \<open>A formatted character is one plain character or a back slash and one character.\<close>

lemma fmt_string_char_cases:
  obtains "fmt_string_char c = [c]" "c \<notin> {DQ, BSLASH, NL, CR, TAB}"
  | d where "fmt_string_char c = [BSLASH, d]" "d \<notin> {NL, CR}"
  by (cases "c \<in> {DQ, BSLASH, NL, CR, TAB}") (auto simp: fmt_string_char_def)

lemma scan_plain:
  assumes "lx_rest lx = c # cs" "c \<notin> {DQ, BSLASH, NL, CR}"
  shows "scan_string p q start content lx = scan_string p q start (content @ [c]) (along 1 cs lx)"
  using assms by (subst scan_string.simps) (simp add: advance_along)

lemma scan_escape:
  assumes "lx_rest lx = BSLASH # d # cs" "d \<notin> {NL, CR}"
  shows "scan_string p q start content lx
    = scan_string p q start (content @ [BSLASH, d]) (along 2 cs lx)"
proof -
  have a: "advance lx = along 1 (d # cs) lx" using assms by (intro advance_along) auto
  have "advance (advance lx) = along 2 cs lx"
    unfolding a using assms by (subst advance_along) (auto simp: numeral_2_eq_2)
  then show ?thesis using assms a by (subst scan_string.simps) (simp add: Let_def)
qed

lemma scan_close:
  assumes "lx_rest lx = [DQ]"
  shows "scan_string p 1 start content lx
    = Inr (set_nonws True (emit (StringLiteral p [DQ] content) start (along 1 [] lx)))"
  using assms
  by (subst scan_string.simps)
    (simp add: count_closing.simps peek_ahead_def advance_along)

lemma scan_formatted:
  "lx_rest lx = concat (map fmt_string_char s) @ [DQ] \<Longrightarrow>
   scan_string p 1 start content lx
   = Inr (set_nonws True (emit (StringLiteral p [DQ] (content @ concat (map fmt_string_char s)))
       start (along (length (concat (map fmt_string_char s)) + 1) [] lx)))"
proof (induction s arbitrary: lx content)
  case Nil
  then show ?case using scan_close [of lx] by simp
next
  case (Cons c s)
  let ?suf = "concat (map fmt_string_char s) @ [DQ]"
  show ?case
  proof (cases c rule: fmt_string_char_cases)
    case 1
    with Cons.prems have "lx_rest lx = c # ?suf" by simp
    from scan_plain [OF this] 1(2) Cons.IH [of "along 1 ?suf lx" "content @ [c]"] show ?thesis
      by (simp add: 1(1))
  next
    case (2 d)
    with Cons.prems have "lx_rest lx = BSLASH # d # ?suf" by simp
    from scan_escape [OF this] 2(2) Cons.IH [of "along 2 ?suf lx" "content @ [BSLASH, d]"]
    show ?thesis by (simp add: 2(1))
  qed
qed

lemma next_token_fmt_string:
  "\<exists>lx. next_token (lexer_new (fmt_string s) f) = Inr lx \<and> lx_rest lx = []
    \<and> lx_tokens lx = [(StringLiteral [] [DQ] (concat (map fmt_string_char s)),
         span_new 1 1 1 (1 + length (fmt_string s)) f)]"
proof -
  define l where "l = lexer_new (fmt_string s) f"
  let ?raw = "concat (map fmt_string_char s)"
  have l: "lx_rest l = DQ # ?raw @ [DQ]" "lx_line l = 1" "lx_column l = 1" "lx_tokens l = []"
    "lx_file_path l = f" "set_after_dot False l = l" "current_position l = (1, 1)"
    by (simp_all add: l_def lexer_new_def set_after_dot_def fmt_string_def current_position_def)
  have "next_token l = lex_string_literal [] l" using l by (simp add: next_token_def Let_def)
  also have "\<exists>lx. lex_string_literal [] l = Inr lx \<and> lx_rest lx = []
    \<and> lx_tokens lx = [(StringLiteral [] [DQ] ?raw, span_new 1 1 1 (3 + length ?raw) f)]"
  proof (cases s)
    case Nil
    let ?e = "along 2 [] l"
    have "advance l = along 1 [DQ] l" using l Nil by (intro advance_along) auto
    moreover have "advance (along 1 [DQ] l) = ?e"
      by (subst advance_along) (auto simp: numeral_2_eq_2)
    moreover have "count_quotes 2 ?e = (2, ?e)" by (simp add: count_quotes.simps [of 2 ?e])
    moreover have "count_quotes 1 (along 1 [DQ] l) = count_quotes 2 (advance (along 1 [DQ] l))"
      by (subst count_quotes.simps) (simp add: numeral_2_eq_2)
    moreover have "count_quotes 0 l = count_quotes 1 (advance l)"
      using l Nil by (subst count_quotes.simps) simp
    ultimately have "count_quotes 0 l = (2, ?e)" by simp
    then have "lex_string_literal [] l = Inr (set_nonws True
        (push_token (StringLiteral [] [DQ] []) (make_span ?e (1, 1) (1, 3)) ?e))"
      by (simp add: lex_string_literal_def MAX_LEX_DEPTH_def l(7) numeral_3_eq_3)
    then show ?thesis
      by (simp add: set_nonws_def push_token_def make_span_def l Nil numeral_3_eq_3)
  next
    case (Cons c t)
    let ?a = "along 1 (?raw @ [DQ]) l"
    have a: "advance l = ?a" using l by (intro advance_along) auto
    have "peek_char ?a \<noteq> Some DQ"
      unfolding Cons by (cases c rule: fmt_string_char_cases) (auto simp: peek_char_def)
    then have "count_quotes 1 ?a = (1, ?a)" by (subst count_quotes.simps) (rule if_not_P)
    moreover have "count_quotes 0 l = count_quotes 1 (advance l)"
      using l by (subst count_quotes.simps) simp
    ultimately have "count_quotes 0 l = (1, ?a)" by (simp add: a)
    then have "lex_string_literal [] l = scan_string [] 1 (1, 1) [] ?a"
      by (simp add: lex_string_literal_def l)
    with scan_formatted [of ?a s "[]" "(1, 1)" "[]"] show ?thesis
      by (simp add: lex_defs l numeral_3_eq_3) (simp add: along_def l numeral_3_eq_3)
  qed
  finally show ?thesis unfolding l_def by (simp add: fmt_string_def numeral_3_eq_3)
qed

text \<open>C23: A formatted string is one literal, and its content unescapes to the string.\<close>

theorem tokenize_fmt_string:
  "\<exists>raw. tokenize (fmt_string s) f
      = Inr [(StringLiteral [] [DQ] raw, span_new 1 1 1 (1 + length (fmt_string s)) f)]
    \<and> process_escapes raw [DQ] = s"
proof -
  obtain lx where lx: "next_token (lexer_new (fmt_string s) f) = Inr lx" "lx_rest lx = []"
    "lx_tokens lx = [(StringLiteral [] [DQ] (concat (map fmt_string_char s)),
         span_new 1 1 1 (1 + length (fmt_string s)) f)]"
    using next_token_fmt_string by blast
  have "fmt_string s = DQ # concat (map fmt_string_char s) @ [DQ]" "\<not> is_blank DQ"
    by (simp_all add: fmt_string_def is_blank_def)
  from tokenize_one [OF this lx(1,2)] lx(3) process_escapes_fmt show ?thesis by auto
qed

end
