(* ===== verification/Index_Map.thy ===== *)
theory Index_Map
  imports Tinct_Prelude
begin

text \<open>
  The \<open>IndexMap\<close> of the crate \<open>indexmap\<close>, which the program keeps its frames and
  dictionaries in. The crate is not part of the repository, so its operations are a record
  of functions that the models take as an argument, and the locale \<open>index_map\<close> states what
  the crate documents of them: iteration is in insertion order, inserting an existing key
  keeps its place, and positions index the iteration. \<open>im_modify\<close> is a write through the
  reference that \<open>get_index\<close> returns. \<open>list_index_map\<close> is a concrete instance.
\<close>

section \<open>The operations and their laws\<close>

record ('k, 'v, 'm) index_map_api =
  im_new :: 'm
  im_insert :: "'k \<Rightarrow> 'v \<Rightarrow> 'm \<Rightarrow> 'm"
  im_get :: "'m \<Rightarrow> 'k \<Rightarrow> 'v option"
  im_get_index :: "'m \<Rightarrow> nat \<Rightarrow> ('k \<times> 'v) option"
  im_modify :: "nat \<Rightarrow> ('v \<Rightarrow> 'v) \<Rightarrow> 'm \<Rightarrow> 'm"
  im_entries :: "'m \<Rightarrow> ('k \<times> 'v) list"

text \<open>Insertion into an ordered list of entries, in place for an existing key.\<close>

fun ordered_insert :: "'k \<Rightarrow> 'v \<Rightarrow> ('k \<times> 'v) list \<Rightarrow> ('k \<times> 'v) list" where
  "ordered_insert k v [] = [(k, v)]"
| "ordered_insert k v (e # es) = (if fst e = k then (k, v) # es else e # ordered_insert k v es)"

definition modify_nth :: "nat \<Rightarrow> ('v \<Rightarrow> 'v) \<Rightarrow> ('k \<times> 'v) list \<Rightarrow> ('k \<times> 'v) list" where
  "modify_nth i f es = (if i < length es then es[i := (fst (es ! i), f (snd (es ! i)))] else es)"

lemma ordered_insert_fresh: "k \<notin> fst ` set es \<Longrightarrow> ordered_insert k v es = es @ [(k, v)]"
  by (induction es) auto

lemma keys_ordered_insert:
  "map fst (ordered_insert k v es) = (if k \<in> fst ` set es then map fst es else map fst es @ [k])"
  by (induction es) auto

lemma set_keys_ordered_insert: "fst ` set (ordered_insert k v es) = insert k (fst ` set es)"
  by (induction es) auto

lemma map_of_ordered_insert: "map_of (ordered_insert k v es) = (map_of es)(k \<mapsto> v)"
  by (induction es) (auto simp: fun_upd_twist)

lemma map_fst_modify_nth [simp]: "map fst (modify_nth i f es) = map fst es"
  by (simp add: modify_nth_def map_update) (metis list_update_id nth_map)

lemma length_modify_nth [simp]: "length (modify_nth i f es) = length es"
  by (simp add: modify_nth_def)

lemma nth_opt_modify_nth:
  "nth_opt (modify_nth i f es) j = map_option (\<lambda>(k, v). (k, if j = i then f v else v)) (nth_opt es j)"
  by (auto simp: modify_nth_def nth_opt_def nth_list_update split: prod.splits)

locale index_map =
  fixes api :: "('k, 'v, 'm) index_map_api"
  assumes entries_new: "im_entries api (im_new api) = []"
    and entries_insert: "im_entries api (im_insert api k v m) = ordered_insert k v (im_entries api m)"
    and get_entries: "im_get api m k = map_of (im_entries api m) k"
    and get_index_entries: "im_get_index api m i = nth_opt (im_entries api m) i"
    and entries_modify: "im_entries api (im_modify api i f m) = modify_nth i f (im_entries api m)"
    and distinct_keys: "distinct (map fst (im_entries api m))"
begin

lemma get_insert: "im_get api (im_insert api k v m) j = (if j = k then Some v else im_get api m j)"
  by (simp add: get_entries entries_insert map_of_ordered_insert)

lemma insert_fresh:
  "im_get api m k = None \<Longrightarrow> im_entries api (im_insert api k v m) = im_entries api m @ [(k, v)]"
  by (simp add: entries_insert get_entries map_of_eq_None_iff ordered_insert_fresh)

lemma get_index_modify:
  "im_get_index api (im_modify api i f m) j
   = map_option (\<lambda>(k, v). (k, if j = i then f v else v)) (im_get_index api m j)"
  by (simp add: get_index_entries entries_modify nth_opt_modify_nth)

lemma get_of_index: "im_get_index api m i = Some (k, v) \<Longrightarrow> im_get api m k = Some v"
  using distinct_keys [of m] by (auto simp: get_index_entries get_entries nth_opt_Some_iff in_set_conv_nth)

lemma insert_all:
  "distinct (map fst kvs) \<Longrightarrow> fst ` set kvs \<inter> fst ` set (im_entries api m) = {} \<Longrightarrow>
   im_entries api (fold (\<lambda>(k, v). im_insert api k v) kvs m) = im_entries api m @ kvs"
proof (induction kvs arbitrary: m)
  case (Cons e kvs)
  obtain k v where e: "e = (k, v)" by (cases e)
  with Cons.prems(2) have n: "k \<notin> fst ` set (im_entries api m)" by auto
  then have i: "im_entries api (im_insert api k v m) = im_entries api m @ [(k, v)]"
    by (simp add: entries_insert ordered_insert_fresh)
  have "im_entries api (fold (\<lambda>(k, v). im_insert api k v) kvs (im_insert api k v m))
      = im_entries api (im_insert api k v m) @ kvs"
    using Cons.prems e i by (intro Cons.IH) auto
  with e i show ?case by simp
qed simp

end

section \<open>A concrete instance\<close>

text \<open>Lists of entries with distinct keys.\<close>

typedef ('k, 'v) entry_list = "{es :: ('k \<times> 'v) list. distinct (map fst es)}"
  by (intro exI [of _ "[]"]) simp

setup_lifting type_definition_entry_list

lift_definition el_new :: "('k, 'v) entry_list" is "[]" by simp

lift_definition el_insert :: "'k \<Rightarrow> 'v \<Rightarrow> ('k, 'v) entry_list \<Rightarrow> ('k, 'v) entry_list"
  is ordered_insert by (auto simp: keys_ordered_insert)

lift_definition el_modify :: "nat \<Rightarrow> ('v \<Rightarrow> 'v) \<Rightarrow> ('k, 'v) entry_list \<Rightarrow> ('k, 'v) entry_list"
  is modify_nth by simp

lift_definition el_entries :: "('k, 'v) entry_list \<Rightarrow> ('k \<times> 'v) list" is "\<lambda>es. es" .

definition list_index_map :: "('k, 'v, ('k, 'v) entry_list) index_map_api" where
  "list_index_map =
     \<lparr>im_new = el_new, im_insert = el_insert, im_get = \<lambda>m. map_of (el_entries m),
      im_get_index = \<lambda>m. nth_opt (el_entries m), im_modify = el_modify, im_entries = el_entries\<rparr>"

lemma el_entries_simps [simp]:
  "el_entries el_new = []"
  "el_entries (el_insert k v m) = ordered_insert k v (el_entries m)"
  "el_entries (el_modify i f m) = modify_nth i f (el_entries m)"
  "distinct (map fst (el_entries m))"
  by (transfer, simp)+

lemma list_index_map_simps [simp]:
  "im_new list_index_map = el_new" "im_insert list_index_map = el_insert"
  "im_get list_index_map m = map_of (el_entries m)"
  "im_get_index list_index_map m = nth_opt (el_entries m)"
  "im_modify list_index_map = el_modify" "im_entries list_index_map = el_entries"
  by (simp_all add: list_index_map_def)

interpretation list_map: index_map list_index_map
  by unfold_locales simp_all

end
