(* ===== verification/Symbol_Table.thy ===== *)
theory Symbol_Table
  imports Lexer Index_Map
begin

text \<open>
  The scope frames of \<^verbatim>\<open>src/symbol_table.rs\<close>. An \<open>Arc<SymbolTable>\<close> is an address into a
  store of frames, because frames are shared between chains and written through interior
  mutability (\<open>OnceLock\<close>, atomics): a write through one chain is seen through every chain
  that holds the frame. A \<open>ScopeChain\<close> is a list of addresses, outermost first. Values and
  type schemes (\<open>Arc<Value>\<close>) and thunks are type parameters; \<open>api\<close> is the crate's
  \<open>IndexMap\<close>.
\<close>

section \<open>Frames, entries and the store\<close>

datatype stage = TypeStage | RuntimeStage

type_synonym u8 = "8 word"
type_synonym u32 = "32 word"
type_synonym u64 = "64 word"
type_synonym addr = nat
type_synonym scope_chain = "addr list"

definition STAGE_RUNTIME :: u8 where "STAGE_RUNTIME = 0"
definition STAGE_TYPE :: u8 where "STAGE_TYPE = 1"

record evidence_entry =
  ev_handler_frame :: addr
  ev_method_slots :: "u32 list"

record ('val, 'th) symbol_entry =
  se_slot :: u32
  se_type_scheme :: "'val option"
  se_value :: "'th option"
  se_referenced :: bool
  se_definition_span :: span

record ('val, 'm) symbol_table =
  st_entries :: 'm
  st_evidence :: "(u64 \<rightharpoonup> evidence_entry) option"
  st_type_instantiation :: "(str \<rightharpoonup> 'val) option"
  st_stage :: u8

type_synonym ('val, 'th, 'm) frame_api = "(str, ('val, 'th) symbol_entry, 'm) index_map_api"
type_synonym ('val, 'm) frame_store = "('val, 'm) symbol_table list"

definition new_with_type_inst ::
  "('val, 'th, 'm) frame_api \<Rightarrow> (str \<rightharpoonup> 'val) option \<Rightarrow> ('val, 'm) symbol_table" where
  "new_with_type_inst api type_inst =
     \<lparr>st_entries = im_new api, st_evidence = None, st_type_instantiation = type_inst,
      st_stage = STAGE_RUNTIME\<rparr>"

definition new_table :: "('val, 'th, 'm) frame_api \<Rightarrow> ('val, 'm) symbol_table" where
  "new_table api =
     \<lparr>st_entries = im_new api, st_evidence = None, st_type_instantiation = None,
      st_stage = STAGE_RUNTIME\<rparr>"

text \<open>\<open>Arc::new\<close>: the frame gets the next address.\<close>

definition alloc :: "('val, 'm) symbol_table \<Rightarrow> ('val, 'm) frame_store \<Rightarrow> addr \<times> ('val, 'm) frame_store" where
  "alloc t st = (length st, st @ [t])"

definition empty_table :: "('val, 'th, 'm) frame_api \<Rightarrow> ('val, 'm) frame_store \<Rightarrow> addr \<times> ('val, 'm) frame_store" where
  "empty_table api st = alloc (new_table api) st"

definition empty_chain :: "('val, 'th, 'm) frame_api \<Rightarrow> ('val, 'm) frame_store \<Rightarrow> scope_chain \<times> ('val, 'm) frame_store" where
  "empty_chain api st = (let (a, st') = empty_table api st in ([a], st'))"

definition on_frame ::
  "addr \<Rightarrow> (('val, 'm) symbol_table \<Rightarrow> ('val, 'm) symbol_table) \<Rightarrow> ('val, 'm) frame_store \<Rightarrow> ('val, 'm) frame_store" where
  "on_frame a f st = st[a := f (st ! a)]"

definition mark_type_stage :: "addr \<Rightarrow> ('val, 'm) frame_store \<Rightarrow> ('val, 'm) frame_store" where
  "mark_type_stage a = on_frame a (\<lambda>t. t\<lparr>st_stage := STAGE_TYPE\<rparr>)"

definition frame_stage :: "('val, 'm) symbol_table \<Rightarrow> stage" where
  "frame_stage t = (if st_stage t = STAGE_TYPE then TypeStage else RuntimeStage)"

definition fresh_entry :: "u32 \<Rightarrow> span \<Rightarrow> ('val, 'th) symbol_entry" where
  "fresh_entry slot def_span =
     \<lparr>se_slot = slot, se_type_scheme = None, se_value = None, se_referenced = False,
      se_definition_span = def_span\<rparr>"

text \<open>\<open>insert\<close> takes \<open>&mut self\<close>: it works on a frame that is not shared yet.\<close>

definition insert_symbol ::
  "('val, 'th, 'm) frame_api \<Rightarrow> str \<Rightarrow> u32 \<Rightarrow> span \<Rightarrow> ('val, 'm) symbol_table \<Rightarrow> ('val, 'm) symbol_table" where
  "insert_symbol api name slot def_span t =
     t\<lparr>st_entries := im_insert api name (fresh_entry slot def_span) (st_entries t)\<rparr>"

section \<open>Positional access\<close>

definition lookup_in_chain ::
  "('val, 'th, 'm) frame_api \<Rightarrow> ('val, 'm) frame_store \<Rightarrow> scope_chain \<Rightarrow> u32 \<Rightarrow> u32
   \<Rightarrow> (str \<times> ('val, 'th) symbol_entry) option" where
  "lookup_in_chain api st chain depth slot =
     (let len = length chain
      in if unat depth \<ge> len then None
         else case nth_opt chain (len - 1 - unat depth) of
             None \<Rightarrow> None
           | Some a \<Rightarrow> im_get_index api (st_entries (st ! a)) (unat slot))"

definition set_type_scheme ::
  "('val, 'th, 'm) frame_api \<Rightarrow> addr \<Rightarrow> u32 \<Rightarrow> 'val \<Rightarrow> ('val, 'm) frame_store \<Rightarrow> bool \<times> ('val, 'm) frame_store" where
  "set_type_scheme api a slot scheme st =
     (case im_get_index api (st_entries (st ! a)) (unat slot) of
        None \<Rightarrow> (False, st)
      | Some (_, e) \<Rightarrow>
          (let (ok, c) = once_set scheme (se_type_scheme e)
           in (ok, on_frame a (\<lambda>t. t\<lparr>st_entries :=
                 im_modify api (unat slot) (\<lambda>e. e\<lparr>se_type_scheme := c\<rparr>) (st_entries t)\<rparr>) st)))"

definition set_value ::
  "('val, 'th, 'm) frame_api \<Rightarrow> addr \<Rightarrow> u32 \<Rightarrow> 'th \<Rightarrow> ('val, 'm) frame_store \<Rightarrow> bool \<times> ('val, 'm) frame_store" where
  "set_value api a slot thunk st =
     (case im_get_index api (st_entries (st ! a)) (unat slot) of
        None \<Rightarrow> (False, st)
      | Some (_, e) \<Rightarrow>
          (let (ok, c) = once_set thunk (se_value e)
           in (ok, on_frame a (\<lambda>t. t\<lparr>st_entries :=
                 im_modify api (unat slot) (\<lambda>e. e\<lparr>se_value := c\<rparr>) (st_entries t)\<rparr>) st)))"

definition mark_referenced ::
  "('val, 'th, 'm) frame_api \<Rightarrow> addr \<Rightarrow> u32 \<Rightarrow> ('val, 'm) frame_store \<Rightarrow> ('val, 'm) frame_store" where
  "mark_referenced api a slot st =
     (case im_get_index api (st_entries (st ! a)) (unat slot) of
        None \<Rightarrow> st
      | Some _ \<Rightarrow> on_frame a (\<lambda>t. t\<lparr>st_entries :=
           im_modify api (unat slot) (\<lambda>e. e\<lparr>se_referenced := True\<rparr>) (st_entries t)\<rparr>) st)"

definition is_referenced :: "('val, 'th, 'm) frame_api \<Rightarrow> ('val, 'm) symbol_table \<Rightarrow> u32 \<Rightarrow> bool" where
  "is_referenced api t slot =
     (case im_get_index api (st_entries t) (unat slot) of None \<Rightarrow> False | Some (_, e) \<Rightarrow> se_referenced e)"

definition table_len :: "('val, 'th, 'm) frame_api \<Rightarrow> ('val, 'm) symbol_table \<Rightarrow> nat" where
  "table_len api t = length (im_entries api (st_entries t))"

definition definition_span :: "('val, 'th, 'm) frame_api \<Rightarrow> ('val, 'm) symbol_table \<Rightarrow> u32 \<Rightarrow> span option" where
  "definition_span api t slot =
     map_option (\<lambda>(_, e). se_definition_span e) (im_get_index api (st_entries t) (unat slot))"

definition entry_name :: "('val, 'th, 'm) frame_api \<Rightarrow> ('val, 'm) symbol_table \<Rightarrow> u32 \<Rightarrow> str option" where
  "entry_name api t slot = map_option fst (im_get_index api (st_entries t) (unat slot))"

section \<open>Evidence\<close>

definition set_evidence ::
  "addr \<Rightarrow> (u64 \<rightharpoonup> evidence_entry) \<Rightarrow> ('val, 'm) frame_store \<Rightarrow> bool \<times> ('val, 'm) frame_store" where
  "set_evidence a evidence st =
     (let (ok, c) = once_set evidence (st_evidence (st ! a))
      in (ok, on_frame a (\<lambda>t. t\<lparr>st_evidence := c\<rparr>) st))"

text \<open>The loop over the frames, innermost first.\<close>

fun lookup_evidence_loop :: "('val, 'm) frame_store \<Rightarrow> addr list \<Rightarrow> u64 \<Rightarrow> evidence_entry option" where
  "lookup_evidence_loop st [] class_decl_id = None"
| "lookup_evidence_loop st (a # as) class_decl_id =
     (case st_evidence (st ! a) of
        None \<Rightarrow> lookup_evidence_loop st as class_decl_id
      | Some evidence \<Rightarrow>
          (case evidence class_decl_id of
             Some entry \<Rightarrow> Some entry
           | None \<Rightarrow> lookup_evidence_loop st as class_decl_id))"

definition lookup_evidence_in_chain :: "('val, 'm) frame_store \<Rightarrow> scope_chain \<Rightarrow> u64 \<Rightarrow> evidence_entry option" where
  "lookup_evidence_in_chain st chain class_decl_id = lookup_evidence_loop st (rev chain) class_decl_id"

text \<open>
  \<open>collected.entry(k).or_insert_with(..)\<close> for every entry of a frame's evidence: what is
  there stays. The keys of one map are distinct, so the order of its iteration is
  immaterial.
\<close>

definition or_insert_all :: "(u64 \<rightharpoonup> evidence_entry) \<Rightarrow> (u64 \<rightharpoonup> evidence_entry) \<Rightarrow> (u64 \<rightharpoonup> evidence_entry)" where
  "or_insert_all evidence collected =
     (\<lambda>k. case collected k of Some v \<Rightarrow> Some v
          | None \<Rightarrow> (case evidence k of
                Some v \<Rightarrow> Some \<lparr>ev_handler_frame = ev_handler_frame v, ev_method_slots = ev_method_slots v\<rparr>
              | None \<Rightarrow> None))"

fun collect_loop :: "('val, 'm) frame_store \<Rightarrow> addr list \<Rightarrow> (u64 \<rightharpoonup> evidence_entry) \<Rightarrow> (u64 \<rightharpoonup> evidence_entry)" where
  "collect_loop st [] collected = collected"
| "collect_loop st (a # as) collected =
     (case st_evidence (st ! a) of
        None \<Rightarrow> collect_loop st as collected
      | Some evidence \<Rightarrow> collect_loop st as (or_insert_all evidence collected))"

definition collect_caller_evidence_from_chain ::
  "('val, 'm) frame_store \<Rightarrow> scope_chain \<Rightarrow> (u64 \<rightharpoonup> evidence_entry) option" where
  "collect_caller_evidence_from_chain st chain =
     (let collected = collect_loop st (rev chain) (\<lambda>_. None)
      in if collected = (\<lambda>_. None) then None else Some collected)"

section \<open>Extending a chain\<close>

text \<open>The entries of the new frame: slots are the enumeration of the named thunks.\<close>

definition bound_entry :: "('th \<Rightarrow> span) \<Rightarrow> nat \<Rightarrow> 'th \<Rightarrow> ('val, 'th) symbol_entry" where
  "bound_entry span_of slot thunk =
     \<lparr>se_slot = word_of_nat slot, se_type_scheme = None,
      se_value = snd (once_set thunk None), se_referenced = False,
      se_definition_span = span_of thunk\<rparr>"

fun bind_all ::
  "('val, 'th, 'm) frame_api \<Rightarrow> ('th \<Rightarrow> span) \<Rightarrow> nat \<Rightarrow> (str \<times> 'th) list \<Rightarrow> 'm \<Rightarrow> 'm" where
  "bind_all api span_of slot [] m = m"
| "bind_all api span_of slot ((name, thunk) # rest) m =
     bind_all api span_of (slot + 1) rest (im_insert api name (bound_entry span_of slot thunk) m)"

text \<open>\<open>named_entries\<close> is the iteration of the \<open>IndexMap\<close> of thunks, so its names are distinct.\<close>

definition extend_chain ::
  "('val, 'th, 'm) frame_api \<Rightarrow> ('th \<Rightarrow> span) \<Rightarrow> scope_chain \<Rightarrow> (str \<times> 'th) list
   \<Rightarrow> ('val, 'm) frame_store \<Rightarrow> scope_chain \<times> ('val, 'm) frame_store" where
  "extend_chain api span_of chain named_entries st =
     (let entries = bind_all api span_of 0 named_entries (im_new api);
          (a, st') = alloc \<lparr>st_entries = entries, st_evidence = None,
              st_type_instantiation = None, st_stage = STAGE_RUNTIME\<rparr> st
      in (chain @ [a], st'))"

section \<open>Lookup by name\<close>

text \<open>One pass over the frames, innermost first, for one stage.\<close>

fun find_stage ::
  "('val, 'th, 'm) frame_api \<Rightarrow> ('val, 'm) frame_store \<Rightarrow> str \<Rightarrow> stage \<Rightarrow> u32 \<Rightarrow> nat \<Rightarrow> u32 \<Rightarrow> addr list
   \<Rightarrow> (u32 \<times> addr \<times> ('val, 'th) symbol_entry) option" where
  "find_stage api st name want skip depth seen [] = None"
| "find_stage api st name want skip depth seen (a # as) =
     (if frame_stage (st ! a) \<noteq> want then find_stage api st name want skip (depth + 1) seen as
      else case im_get api (st_entries (st ! a)) name of
             Some entry \<Rightarrow>
               if seen < skip then find_stage api st name want skip (depth + 1) (seen + 1) as
               else Some (word_of_nat depth, a, entry)
           | None \<Rightarrow> find_stage api st name want skip (depth + 1) seen as)"

fun find_in_chain_staged ::
  "('val, 'th, 'm) frame_api \<Rightarrow> ('val, 'm) frame_store \<Rightarrow> scope_chain \<Rightarrow> str \<Rightarrow> stage list \<Rightarrow> u32
   \<Rightarrow> (u32 \<times> addr \<times> ('val, 'th) symbol_entry) option" where
  "find_in_chain_staged api st chain name [] skip = None"
| "find_in_chain_staged api st chain name (want # stages) skip =
     (case find_stage api st name want skip 0 0 (rev chain) of
        Some r \<Rightarrow> Some r
      | None \<Rightarrow> find_in_chain_staged api st chain name stages skip)"

text \<open>The diagnostic \<open>entry '..' exists at slot .. but its value has not been written\<close>.\<close>

datatype scope_error = ValueNotWritten str u32 span

definition get_in_chain_staged ::
  "('val, 'th, 'm) frame_api \<Rightarrow> ('val, 'm) frame_store \<Rightarrow> scope_chain \<Rightarrow> str \<Rightarrow> stage list
   \<Rightarrow> scope_error + 'th option" where
  "get_in_chain_staged api st chain name stages =
     (case find_in_chain_staged api st chain name stages 0 of
        Some (_, _, entry) \<Rightarrow>
          (case se_value entry of
             Some thunk \<Rightarrow> Inr (Some thunk)
           | None \<Rightarrow> Inl (ValueNotWritten name (se_slot entry) (se_definition_span entry)))
      | None \<Rightarrow> Inr None)"

section \<open>Notes\<close>

definition scope_note ::
  "('val, 'th, 'm) frame_api \<Rightarrow> ('val, 'm) frame_store \<Rightarrow> u32 option \<Rightarrow> nat \<Rightarrow> addr \<Rightarrow> str" where
  "scope_note api st target_depth depth a =
     (let prefix = (if target_depth = Some (word_of_nat depth) then us ''--> '' else us ''    '');
          names = take 5 (map fst (im_entries api (st_entries (st ! a))))
      in prefix @ us ''scope['' @ nat_to_str depth @ us '']: '' @ nat_to_str (table_len api (st ! a))
         @ us '' entries ['' @ join_str (us '', '') names
         @ (if table_len api (st ! a) > 5 then us '' ...'' else []) @ us '']'')"

definition scope_chain_notes ::
  "('val, 'th, 'm) frame_api \<Rightarrow> ('val, 'm) frame_store \<Rightarrow> scope_chain \<Rightarrow> u32 option \<Rightarrow> str list" where
  "scope_chain_notes api st chain target_depth =
     (us ''scope chain: '' @ nat_to_str (length chain) @ us '' frames'')
     # map (\<lambda>(depth, a). scope_note api st target_depth depth a) (enumerate 0 (rev chain))"

end
