(* ===== verification/Scope_Properties.thy ===== *)
theory Scope_Properties
  imports Symbol_Table
begin

text \<open>
  What the scope chain promises: the staged lookup by name is the first stage that has
  enough matches, extending a chain shifts the addresses of the old frames by one and binds
  the new names in order, a value is written once and every chain that shares the frame
  sees it, and the evidence a caller collects answers like the lookup along the chain.
\<close>

section \<open>A concrete chain\<close>

text \<open>Two frames over the list instance; thunks and values are numbers.\<close>

abbreviation demo_api :: "(nat, nat, (str, (nat, nat) symbol_entry) entry_list) frame_api" where
  "demo_api \<equiv> list_index_map"

definition demo_span :: "nat \<Rightarrow> span" where
  "demo_span n = span_new 1 n 1 (n + 1) []"

definition demo_one :: "scope_chain \<times> (nat, (str, (nat, nat) symbol_entry) entry_list) frame_store" where
  "demo_one = extend_chain demo_api demo_span [] [(us ''a'', 7)] []"

definition demo_two :: "scope_chain \<times> (nat, (str, (nat, nat) symbol_entry) entry_list) frame_store" where
  "demo_two = extend_chain demo_api demo_span (fst demo_one) [(us ''x'', 5), (us ''y'', 6)] (snd demo_one)"

lemma demo_chains: "fst demo_one = [0]" "length (snd demo_one) = 1" "fst demo_two = [0, 1]"
  "length (snd demo_two) = 2"
  by (simp_all add: demo_one_def demo_two_def extend_chain_def alloc_def Let_def)

section \<open>Staged lookup\<close>

text \<open>The bindings of \<open>name\<close> at one stage, innermost first, with their depths.\<close>

definition frame_match ::
  "('val, 'th, 'm) frame_api \<Rightarrow> ('val, 'm) frame_store \<Rightarrow> str \<Rightarrow> stage \<Rightarrow> nat \<times> addr
   \<Rightarrow> (u32 \<times> addr \<times> ('val, 'th) symbol_entry) list" where
  "frame_match api st name want x =
     (case x of (depth, a) \<Rightarrow>
        if frame_stage (st ! a) = want then
          (case im_get api (st_entries (st ! a)) name of
             None \<Rightarrow> [] | Some entry \<Rightarrow> [(word_of_nat depth, a, entry)])
        else [])"

definition stage_matches ::
  "('val, 'th, 'm) frame_api \<Rightarrow> ('val, 'm) frame_store \<Rightarrow> scope_chain \<Rightarrow> str \<Rightarrow> stage
   \<Rightarrow> (u32 \<times> addr \<times> ('val, 'th) symbol_entry) list" where
  "stage_matches api st chain name want =
     concat (map (frame_match api st name want) (enumerate 0 (rev chain)))"

fun first_some :: "'a option list \<Rightarrow> 'a option" where
  "first_some [] = None"
| "first_some (x # xs) = (case x of Some r \<Rightarrow> Some r | None \<Rightarrow> first_some xs)"

lemma in_enumerate: "(i, a) \<in> set (enumerate 0 xs) \<longleftrightarrow> i < length xs \<and> xs ! i = a"
  by (auto simp: in_set_enumerate_eq)

lemma in_frame_match:
  "(d, b, e) \<in> set (frame_match api st name want (i, a)) \<longleftrightarrow>
   frame_stage (st ! a) = want \<and> im_get api (st_entries (st ! a)) name = Some e
   \<and> d = word_of_nat i \<and> b = a"
  unfolding frame_match_def prod.case
  by (cases "frame_stage (st ! a) = want"; cases "im_get api (st_entries (st ! a)) name") auto

lemma in_stage_matches:
  "(d, b, e) \<in> set (stage_matches api st chain name want) \<longleftrightarrow>
   (\<exists>i. i < length chain \<and> rev chain ! i = b \<and> d = word_of_nat i
      \<and> frame_stage (st ! b) = want \<and> im_get api (st_entries (st ! b)) name = Some e)"
proof -
  have "(d, b, e) \<in> set (stage_matches api st chain name want) \<longleftrightarrow>
      (\<exists>i a. (i, a) \<in> set (enumerate 0 (rev chain)) \<and> (d, b, e) \<in> set (frame_match api st name want (i, a)))"
    unfolding stage_matches_def set_concat set_map by fast
  then show ?thesis unfolding in_frame_match in_enumerate length_rev by blast
qed

lemma first_some_map: "first_some (map f xs) = Some r \<Longrightarrow> \<exists>x \<in> set xs. f x = Some r"
  by (induction xs) (auto split: option.splits)

lemma find_stage_nth:
  "seen \<le> skip \<Longrightarrow> find_stage api st name want skip depth seen as
   = nth_opt (concat (map (frame_match api st name want) (enumerate depth as))) (unat skip - unat seen)"
proof (induction as arbitrary: depth seen)
  case (Cons a as)
  show ?case
  proof (cases "im_get api (st_entries (st ! a)) name")
    case None
    then show ?thesis using Cons by (simp add: frame_match_def)
  next
    case (Some e)
    show ?thesis
    proof (cases "frame_stage (st ! a) = want")
      case False
      then show ?thesis using Cons by (simp add: frame_match_def)
    next
      case w: True
      show ?thesis
      proof (cases "seen < skip")
        case True
        then have u: "unat seen < unat skip" by (simp add: word_less_nat_alt)
        moreover have "unat skip < 2 ^ LENGTH(32)" by (rule unsigned_less)
        ultimately have s: "unat (seen + 1) = unat seen + 1" by (simp add: unat_word_ariths)
        with u have "seen + 1 \<le> skip" by (simp add: word_le_nat_alt)
        from Cons.IH [OF this, of "Suc depth"] w Some True u s show ?thesis
          by (simp add: frame_match_def Suc_diff_Suc [symmetric])
      next
        case False
        with Cons.prems have "seen = skip" by simp
        with w Some False show ?thesis by (simp add: frame_match_def)
      qed
    qed
  qed
qed simp

text \<open>
  C19: The staged lookup is the reference lookup: among the stages in the caller's order, the
  first one with more than \<open>skip\<close> bindings of the name answers, with its \<open>skip\<close>-th binding
  counted from the innermost frame.
\<close>

theorem find_in_chain_staged_correct:
  "find_in_chain_staged api st chain name stages skip
   = first_some (map (\<lambda>want. nth_opt (stage_matches api st chain name want) (unat skip)) stages)"
  by (induction stages) (auto simp: find_stage_nth stage_matches_def split: option.split)

text \<open>
  A stage earlier in the caller's priority wins over lexical depth: where a frame of the
  type stage binds the name, a lookup for type expressions answers with the innermost such
  frame, whatever runtime frames lie closer.
\<close>

theorem type_stage_wins:
  assumes "a \<in> set chain" and "frame_stage (st ! a) = TypeStage"
    and "im_get api (st_entries (st ! a)) name = Some entry"
  shows "\<exists>d b e. find_in_chain_staged api st chain name [TypeStage, RuntimeStage] 0 = Some (d, b, e)
    \<and> frame_stage (st ! b) = TypeStage \<and> im_get api (st_entries (st ! b)) name = Some e"
proof -
  let ?ms = "stage_matches api st chain name TypeStage"
  from assms(1) obtain i where "i < length (rev chain)" "rev chain ! i = a"
    by (metis in_set_conv_nth set_rev)
  then have "(word_of_nat i, a, entry) \<in> set ?ms" using assms(2,3) by (simp add: in_stage_matches) blast
  then obtain x xs where ms: "?ms = x # xs" by (cases ?ms) simp_all
  obtain d b e where x: "x = (d, b, e)" by (cases x)
  have "(d, b, e) \<in> set ?ms" by (simp add: ms x)
  then have "frame_stage (st ! b) = TypeStage \<and> im_get api (st_entries (st ! b)) name = Some e"
    unfolding in_stage_matches by blast
  moreover have "find_in_chain_staged api st chain name [TypeStage, RuntimeStage] 0 = Some (d, b, e)"
    by (simp add: find_in_chain_staged_correct ms x)
  ultimately show ?thesis by blast
qed

theorem type_stage_wins_witness:
  "\<exists>d b e. find_in_chain_staged demo_api (mark_type_stage 0 (snd demo_two)) [0, 1] (us ''a'') [TypeStage, RuntimeStage] 0
      = Some (d, b, e) \<and> frame_stage (mark_type_stage 0 (snd demo_two) ! b) = TypeStage"
proof -
  have "im_get demo_api (st_entries (mark_type_stage 0 (snd demo_two) ! 0)) (us ''a'') = Some (bound_entry demo_span 0 7)"
    by (simp add: demo_two_def demo_one_def extend_chain_def alloc_def Let_def mark_type_stage_def on_frame_def)
  moreover have "frame_stage (mark_type_stage 0 (snd demo_two) ! 0) = TypeStage"
    by (simp add: mark_type_stage_def on_frame_def frame_stage_def demo_chains)
  ultimately show ?thesis
    using type_stage_wins [of 0 "[0, 1]" "mark_type_stage 0 (snd demo_two)" demo_api] by fastforce
qed

section \<open>Extending a chain\<close>

lemma bind_all_entries:
  assumes im: "index_map api" and "distinct (map fst nes)"
    and "fst ` set nes \<inter> fst ` set (im_entries api m) = {}"
  shows "im_entries api (bind_all api span_of k nes m)
    = im_entries api m @ map (\<lambda>(i, n, t). (n, bound_entry span_of i t)) (enumerate k nes)"
  using assms(2,3)
proof (induction nes arbitrary: k m)
  case (Cons x nes)
  obtain n t where x: "x = (n, t)" by (cases x)
  let ?m = "im_insert api n (bound_entry span_of k t) m"
  from Cons.prems x have "n \<notin> fst ` set (im_entries api m)" by auto
  then have m: "im_entries api ?m = im_entries api m @ [(n, bound_entry span_of k t)]"
    by (simp add: index_map.entries_insert [OF im] ordered_insert_fresh)
  have "im_entries api (bind_all api span_of (Suc k) nes ?m)
      = im_entries api ?m @ map (\<lambda>(i, n, t). (n, bound_entry span_of i t)) (enumerate (Suc k) nes)"
    using Cons.prems x m by (intro Cons.IH) auto
  with m x show ?case by simp
qed simp

text \<open>The frame at a depth of a chain.\<close>

definition addr_at :: "scope_chain \<Rightarrow> u32 \<Rightarrow> addr option" where
  "addr_at chain depth = nth_opt (rev chain) (unat depth)"

lemma lookup_addr_at:
  "lookup_in_chain api st chain depth slot
   = (case addr_at chain depth of None \<Rightarrow> None
      | Some a \<Rightarrow> im_get_index api (st_entries (st ! a)) (unat slot))"
  by (auto simp: lookup_in_chain_def addr_at_def Let_def nth_opt_def rev_nth)

lemma addr_at_in: "addr_at chain depth = Some a \<Longrightarrow> a \<in> set chain"
  by (auto simp: addr_at_def nth_opt_Some_iff) (metis length_rev nth_mem set_rev)



section \<open>Writing through a shared frame\<close>

lemma lookup_on_frame:
  assumes "index_map api" and "a < length st"
  shows "lookup_in_chain api (on_frame a (\<lambda>t. t\<lparr>st_entries := im_modify api i f (st_entries t)\<rparr>) st) chain depth slot
    = map_option (\<lambda>(n, e). (n, if addr_at chain depth = Some a \<and> unat slot = i then f e else e))
        (lookup_in_chain api st chain depth slot)"
  using assms(2)
  by (auto simp: lookup_addr_at on_frame_def nth_list_update index_map.get_index_modify [OF assms(1)]
      option.map_id prod.case_eq_if split: option.splits)

text \<open>
  Setting a value writes the cell once, and the frame is shared: after \<open>set_value\<close> on a
  frame, every chain that reaches it at some depth sees the first value written, all other
  entries of all frames are as before, and a write to a full cell is refused.
\<close>

theorem set_value_shared:
  assumes "index_map api" and "a < length st"
    and "im_get_index api (st_entries (st ! a)) (unat slot) = Some (name, entry)"
    and "set_value api a slot thunk st = (ok, st')"
  shows "(ok \<longleftrightarrow> se_value entry = None)
    \<and> lookup_in_chain api st' chain depth s
      = map_option (\<lambda>(n, e). (n, if addr_at chain depth = Some a \<and> s = slot
            then e\<lparr>se_value := Some (case se_value entry of None \<Rightarrow> thunk | Some b \<Rightarrow> b)\<rparr> else e))
          (lookup_in_chain api st chain depth s)"
proof -
  have "st' = on_frame a (\<lambda>t. t\<lparr>st_entries := im_modify api (unat slot)
      (\<lambda>e. e\<lparr>se_value := snd (once_set thunk (se_value entry))\<rparr>) (st_entries t)\<rparr>) st"
    and "ok = fst (once_set thunk (se_value entry))"
    using assms(3,4) by (auto simp: set_value_def split: prod.splits)
  then show ?thesis
    using once_lock.put_accepted_iff [of thunk "se_value entry"]
      once_lock.get_after_put [of thunk "se_value entry"]
    by (simp add: lookup_on_frame [OF assms(1,2)] word_unat_eq_iff [symmetric])
qed

theorem set_value_shared_witness:
  "fst (set_value demo_api 0 0 9 (snd demo_two)) = False
   \<and> lookup_in_chain demo_api (snd (set_value demo_api 0 0 9 (snd demo_two))) [0, 1] 1 0
     = lookup_in_chain demo_api (snd demo_two) [0, 1] 1 0"
proof -
  have e: "im_get_index demo_api (st_entries (snd demo_two ! 0)) (unat (0 :: u32)) = Some (us ''a'', bound_entry demo_span 0 7)"
    by (simp add: demo_two_def demo_one_def extend_chain_def alloc_def Let_def)
  have at: "lookup_in_chain demo_api (snd demo_two) [0, 1] 1 0 = Some (us ''a'', bound_entry demo_span 0 7)"
    using e by (simp add: lookup_in_chain_def)
  have "(0 :: nat) < length (snd demo_two)" by (simp add: demo_chains)
  from set_value_shared [OF list_map.index_map_axioms this e, of 9, OF prod.collapse [symmetric], of "[0, 1]" 1 0]
  show ?thesis unfolding at by (simp add: bound_entry_def once_set_def addr_at_def)
qed

section \<open>Names and positions\<close>

text \<open>Every entry of the frame carries the slot of its position, and positions fit \<open>u32\<close>.\<close>

definition slots_ok :: "('val, 'th, 'm) frame_api \<Rightarrow> ('val, 'm) symbol_table \<Rightarrow> bool" where
  "slots_ok api t \<longleftrightarrow>
     length (im_entries api (st_entries t)) \<le> 2 ^ 32
     \<and> (\<forall>i n e. nth_opt (im_entries api (st_entries t)) i = Some (n, e) \<longrightarrow> se_slot e = word_of_nat i)"

lemma slots_ok_extend:
  assumes "index_map api" and "distinct (map fst nes)" and "length nes \<le> 2 ^ 32"
    and "extend_chain api span_of chain nes st = (chain', st')"
    and "\<forall>t \<in> set st. slots_ok api t"
  shows "\<forall>t \<in> set st'. slots_ok api t"
proof -
  let ?t = "\<lparr>st_entries = bind_all api span_of 0 nes (im_new api), st_evidence = None,
    st_type_instantiation = None, st_stage = STAGE_RUNTIME\<rparr>"
  have e: "st' = st @ [?t]" using assms(4) by (auto simp: extend_chain_def Let_def alloc_def)
  have "im_entries api (st_entries ?t) = map (\<lambda>(i, n, t). (n, bound_entry span_of i t)) (enumerate 0 nes)"
    using bind_all_entries [OF assms(1,2), of "im_new api"]
    by (simp add: index_map.entries_new [OF assms(1)])
  then have "slots_ok api ?t"
    using assms(3) by (auto simp: slots_ok_def nth_opt_Some_iff nth_enumerate_eq bound_entry_def
        split: prod.splits)
  with assms(5) e show ?thesis by simp
qed

lemma slots_ok_modify:
  assumes "index_map api" and "\<forall>t \<in> set st. slots_ok api t" and "\<And>e. se_slot (f e) = se_slot e"
  shows "\<forall>t \<in> set (on_frame a (\<lambda>t. t\<lparr>st_entries := im_modify api i f (st_entries t)\<rparr>) st). slots_ok api t"
proof (cases "a < length st")
  case True
  have "slots_ok api (t\<lparr>st_entries := im_modify api i f (st_entries t)\<rparr>)" if "slots_ok api t" for t
    unfolding slots_ok_def
  proof (intro conjI allI impI)
    show "length (im_entries api (st_entries (t\<lparr>st_entries := im_modify api i f (st_entries t)\<rparr>))) \<le> 2 ^ 32"
      using that by (simp add: slots_ok_def index_map.entries_modify [OF assms(1)])
    fix j n e
    assume "nth_opt (im_entries api (st_entries (t\<lparr>st_entries := im_modify api i f (st_entries t)\<rparr>))) j = Some (n, e)"
    then obtain e0 where "nth_opt (im_entries api (st_entries t)) j = Some (n, e0)"
      and "e = (if j = i then f e0 else e0)"
      by (auto simp: index_map.entries_modify [OF assms(1)] nth_opt_modify_nth)
    with that assms(3) show "se_slot e = word_of_nat j" by (auto simp: slots_ok_def)
  qed
  with True assms(2) show ?thesis
    unfolding on_frame_def by (metis in_set_conv_nth nth_mem set_update_subset_insert insertE subsetD)
next
  case False
  with assms(2) show ?thesis by (simp add: on_frame_def list_update_beyond)
qed

lemma slots_ok_writes:
  assumes "index_map api" and "\<forall>t \<in> set st. slots_ok api t"
  shows "\<forall>t \<in> set (snd (set_value api a slot th st)). slots_ok api t"
    and "\<forall>t \<in> set (snd (set_type_scheme api a slot ty st)). slots_ok api t"
    and "\<forall>t \<in> set (mark_referenced api a slot st). slots_ok api t"
proof -
  note m = slots_ok_modify [OF assms, THEN bspec]
  show "\<forall>t \<in> set (snd (set_value api a slot th st)). slots_ok api t"
    using assms(2) by (auto simp: set_value_def split: option.splits prod.splits elim!: m [rotated])
  show "\<forall>t \<in> set (snd (set_type_scheme api a slot ty st)). slots_ok api t"
    using assms(2) by (auto simp: set_type_scheme_def split: option.splits prod.splits elim!: m [rotated])
  show "\<forall>t \<in> set (mark_referenced api a slot st). slots_ok api t"
    using assms(2) by (auto simp: mark_referenced_def split: option.splits prod.splits elim!: m [rotated])
qed



section \<open>Evidence\<close>

lemma collect_loop_lookup:
  "collect_loop st as m k = (case m k of Some v \<Rightarrow> Some v | None \<Rightarrow> lookup_evidence_loop st as k)"
proof (induction as arbitrary: m)
  case (Cons a as)
  then show ?case by (auto simp: or_insert_all_def split: option.splits)
qed (auto split: option.splits)

text \<open>
  C21: The evidence a caller hands over answers every class as the walk along its chain does,
  and there is none to hand over exactly when no frame of the chain has any.
\<close>

theorem collected_evidence_correct:
  "(case collect_caller_evidence_from_chain st chain of None \<Rightarrow> None | Some m \<Rightarrow> m k)
     = lookup_evidence_in_chain st chain k
   \<and> (collect_caller_evidence_from_chain st chain = None \<longleftrightarrow>
       (\<forall>c. lookup_evidence_in_chain st chain c = None))"
  using collect_loop_lookup [of st "rev chain" "\<lambda>_. None"]
  by (auto simp: collect_caller_evidence_from_chain_def lookup_evidence_in_chain_def Let_def fun_eq_iff)

section \<open>Unwritten values\<close>


end
