(* ===== verification/Coverage.thy ===== *)
theory Coverage
  imports Symbol_Table
begin

text \<open>
  Exhaustiveness and redundancy of \<open>match\<close> expressions (\<^verbatim>\<open>src/coverage.rs\<close>): constructor
  tags, patterns and signatures, the matrix operations of Maranget's algorithm, the
  usefulness test with its termination, and \<open>check_coverage\<close>. Sets of tags
  (\<open>BTreeSet\<close>) are sets: the code only asks for inclusion and whether some tag satisfies a
  test. The 32 bits that \<open>DefaultHasher\<close> gives for a dead pattern are unspecified by the
  standard library and are the parameter \<open>dead_hash\<close>.
\<close>

section \<open>Tags, patterns, signatures\<close>

datatype ctor_tag =
    DictKey str
  | LiteralInt int
  | LiteralStr str
  | Variant u64 u32
  | Bottom

datatype pattern = Constructor ctor_tag "pattern list" | Wildcard

type_synonym signature = "(ctor_tag \<times> nat) list"
type_synonym pattern_vector = "pattern list"
type_synonym pattern_matrix = "pattern_vector list"

text \<open>What rendering reads of the environment: the constructor names of a type by its id.\<close>

type_synonym tycon_names = "u64 \<rightharpoonup> str list"

definition render_tag :: "tycon_names \<Rightarrow> ctor_tag \<Rightarrow> str" where
  "render_tag env tag =
     (case tag of
        DictKey k \<Rightarrow> us ''['' @ k @ us '': _]''
      | LiteralInt n \<Rightarrow> int_to_str n
      | LiteralStr s \<Rightarrow> [DQ] @ s @ [DQ]
      | Variant i c \<Rightarrow>
          (let fallback = us ''Variant('' @ nat_to_str (unat i) @ us ''.'' @ nat_to_str (unat c) @ us '')''
           in case env i of
                None \<Rightarrow> fallback
              | Some names \<Rightarrow>
                  (case nth_opt names (unat c) of Some name \<Rightarrow> name | None \<Rightarrow> fallback))
      | Bottom \<Rightarrow> [0x22A5])"

text \<open>\<open>str::split(c)\<close>.\<close>

fun split_on :: "uchar \<Rightarrow> str \<Rightarrow> str list" where
  "split_on c [] = [[]]"
| "split_on c (x # xs) =
     (if x = c then [] # split_on c xs
      else case split_on c xs of [] \<Rightarrow> [[x]] | w # ws \<Rightarrow> (x # w) # ws)"

fun render_pattern :: "tycon_names \<Rightarrow> pattern \<Rightarrow> str" where
  "render_pattern env Wildcard = us ''...''"
| "render_pattern env (Constructor tag subs) =
     (let rs = map (render_pattern env) subs
      in case tag of
           DictKey key \<Rightarrow>
             (case rs of
                [r] \<Rightarrow> us ''['' @ key @ us '': '' @ r @ us '']''
              | [] \<Rightarrow> us ''['' @ key @ us '']''
              | _ \<Rightarrow>
                  us ''['' @ join_str (us '' '')
                    (map (\<lambda>(field, r). field @ us '': '' @ r) (zip (split_on 0 key) rs)) @ us '']'')
         | Variant _ _ \<Rightarrow>
             (let name = render_tag env tag
              in if rs = [] then name
                 else us ''['' @ name @ us '' '' @ join_str (us '' '') rs @ us '']'')
         | _ \<Rightarrow> render_tag env tag)"

definition sig_arity :: "signature \<Rightarrow> ctor_tag \<Rightarrow> nat" where
  "sig_arity sig tag = (case find (\<lambda>(t, _). t = tag) sig of Some (_, a) \<Rightarrow> a | None \<Rightarrow> 0)"

definition sig_tags :: "signature \<Rightarrow> ctor_tag set" where
  "sig_tags sig = fst ` set sig"

section \<open>Normalising arities\<close>

text \<open>The synthetic tag of a pattern that binds the payload of a unit variant.\<close>

definition dead_tag :: "(u64 \<Rightarrow> u32 \<Rightarrow> u32) \<Rightarrow> u64 \<Rightarrow> u32 \<Rightarrow> ctor_tag" where
  "dead_tag dead_hash i c = Variant 1 (dead_hash i c mod 10000 + 50000)"

fun normalize_constructor_arities :: "(u64 \<Rightarrow> u32 \<Rightarrow> u32) \<Rightarrow> signature \<Rightarrow> pattern \<Rightarrow> pattern" where
  "normalize_constructor_arities h sig Wildcard = Wildcard"
| "normalize_constructor_arities h sig (Constructor tag subs) =
     (case tag of
        Variant i c \<Rightarrow>
          (if subs = [] then
             Constructor tag (if sig_arity sig tag = 1 then [Wildcard] else [])
           else if length subs = 1 \<and> sig_arity sig tag = 0 then
             Constructor (dead_tag h i c) (map (normalize_constructor_arities h sig) subs)
           else Constructor tag (map (normalize_constructor_arities h sig) subs))
      | _ \<Rightarrow> Constructor tag (map (normalize_constructor_arities h sig) subs))"

section \<open>Matrix operations\<close>

definition specialize_row :: "ctor_tag \<Rightarrow> nat \<Rightarrow> pattern_vector \<Rightarrow> pattern_matrix" where
  "specialize_row tag arity row =
     (case row of
        [] \<Rightarrow> []
      | Constructor row_tag subs # rest \<Rightarrow> if row_tag = tag then [subs @ rest] else []
      | Wildcard # rest \<Rightarrow> [replicate arity Wildcard @ rest])"

definition specialize :: "ctor_tag \<Rightarrow> nat \<Rightarrow> pattern_matrix \<Rightarrow> pattern_matrix" where
  "specialize tag arity matrix = concat (map (specialize_row tag arity) matrix)"

definition default_row :: "pattern_vector \<Rightarrow> pattern_matrix" where
  "default_row row = (case row of [] \<Rightarrow> [] | Wildcard # rest \<Rightarrow> [rest] | Constructor _ _ # _ \<Rightarrow> [])"

definition default_matrix :: "pattern_matrix \<Rightarrow> pattern_matrix" where
  "default_matrix matrix = concat (map default_row matrix)"

definition collect_head_tags :: "pattern \<Rightarrow> ctor_tag set \<Rightarrow> ctor_tag set" where
  "collect_head_tags pat tags = (case pat of Constructor tag _ \<Rightarrow> insert tag tags | Wildcard \<Rightarrow> tags)"

fun head_constructors :: "pattern_matrix \<Rightarrow> ctor_tag set" where
  "head_constructors [] = {}"
| "head_constructors (row # matrix) =
     (case row of [] \<Rightarrow> head_constructors matrix
      | p # _ \<Rightarrow> collect_head_tags p (head_constructors matrix))"

section \<open>Termination measures\<close>

text \<open>The number of constructors in a pattern, a row and a matrix.\<close>

fun pcount :: "pattern \<Rightarrow> nat" where
  "pcount Wildcard = 0"
| "pcount (Constructor tag subs) = 1 + sum_list (map pcount subs)"

definition vcount :: "pattern_vector \<Rightarrow> nat" where
  "vcount row = sum_list (map pcount row)"

definition mcount :: "pattern_matrix \<Rightarrow> nat" where
  "mcount matrix = sum_list (map vcount matrix)"

lemma vcount_simps [simp]:
  "vcount [] = 0" "vcount (p # row) = pcount p + vcount row" "vcount (r @ s) = vcount r + vcount s"
  "vcount (replicate n Wildcard) = 0"
  by (simp_all add: vcount_def sum_list_replicate)

lemma mcount_simps [simp]:
  "mcount [] = 0" "mcount (r # m) = vcount r + mcount m" "mcount (m @ n) = mcount m + mcount n"
  by (simp_all add: mcount_def)

lemma specialize_simps [simp]:
  "specialize t a [] = []" "specialize t a (r # m) = specialize_row t a r @ specialize t a m"
  by (simp_all add: specialize_def)

lemma default_matrix_simps [simp]:
  "default_matrix [] = []" "default_matrix (r # m) = default_row r @ default_matrix m"
  by (simp_all add: default_matrix_def)

lemma mcount_specialize_row: "mcount (specialize_row t a r) \<le> vcount r"
  by (auto simp: specialize_row_def vcount_def split: list.splits pattern.splits)

lemma mcount_specialize: "mcount (specialize t a m) \<le> mcount m"
  by (induction m) (auto intro: add_mono mcount_specialize_row)

lemma mcount_specialize_less:
  "t \<in> head_constructors m \<Longrightarrow> mcount (specialize t a m) < mcount m"
proof (induction m)
  case (Cons r m)
  show ?case
  proof (cases "t \<in> head_constructors m")
    case True
    with Cons.IH show ?thesis using mcount_specialize_row [of t a r] by simp
  next
    case False
    with Cons.prems obtain subs rest where "r = Constructor t subs # rest"
      by (auto simp: collect_head_tags_def split: list.splits pattern.splits)
    then show ?thesis using mcount_specialize [of t a m] by (simp add: specialize_row_def vcount_def)
  qed
qed simp

lemma mcount_default: "mcount (default_matrix m) \<le> mcount m"
proof (induction m)
  case (Cons r m)
  have "mcount (default_row r) \<le> vcount r"
    by (auto simp: default_row_def split: list.splits pattern.splits)
  with Cons show ?case by simp
qed simp

section \<open>Usefulness\<close>

function useful :: "pattern_matrix \<Rightarrow> pattern_vector \<Rightarrow> signature \<Rightarrow> bool" where
  "useful matrix [] sig = (matrix = [])"
| "useful matrix (Constructor tag subs # rest_q) sig =
     useful (specialize tag (length subs) matrix) (subs @ rest_q) sig"
| "useful matrix (Wildcard # rest_q) sig =
     (if sig_tags sig \<subseteq> head_constructors matrix \<and> sig_tags sig \<noteq> {}
      then \<exists>tag \<in> sig_tags sig.
             useful (specialize tag (sig_arity sig tag) matrix)
               (replicate (sig_arity sig tag) Wildcard @ rest_q) sig
      else useful (default_matrix matrix) rest_q sig)"
  by pat_completeness auto
termination
proof (relation "measures [\<lambda>(m, q, s). mcount m + vcount q, \<lambda>(m, q, s). length q]", goal_cases)
  case (2 matrix tag subs rest_q sig)
  then show ?case using mcount_specialize [of tag "length subs" matrix] by (simp add: vcount_def)
next
  case (3 matrix rest_q sig tag)
  then have "tag \<in> head_constructors matrix" by blast
  from mcount_specialize_less [OF this, of "sig_arity sig tag"] show ?case by simp
next
  case (4 matrix rest_q sig)
  then show ?case using mcount_default [of matrix] by auto
qed simp

declare useful.simps [simp del]

definition lazy_useful :: "pattern_matrix \<Rightarrow> pattern_vector \<Rightarrow> signature \<Rightarrow> bool" where
  "lazy_useful matrix q sig = useful matrix q (sig @ [(Bottom, 0)])"

definition strict_useful :: "pattern_matrix \<Rightarrow> pattern_vector \<Rightarrow> signature \<Rightarrow> bool" where
  "strict_useful matrix q sig = useful matrix q sig"

section \<open>Coverage of a match expression\<close>

record coverage_result =
  cr_exhaustive :: bool
  cr_uncovered :: "pattern list"
  cr_redundant :: "(nat \<times> nat list) list"
  cr_inaccessible :: "nat list"
  cr_resolved :: "pattern list"

text \<open>The prior arms that subsume the pattern on their own: rows paired with arm indices.\<close>

definition covering_arms :: "(pattern_vector \<times> nat) list \<Rightarrow> pattern_vector \<Rightarrow> signature \<Rightarrow> nat list" where
  "covering_arms rows q sig =
     map snd (filter (\<lambda>(row, _). \<not> lazy_useful [row] q sig) rows)"

text \<open>
  The loop over the arms. Its state is the matrix with the arm index of each row, and the
  two lists of reports.
\<close>

type_synonym arms_state = "(pattern_vector \<times> nat) list \<times> (nat \<times> nat list) list \<times> nat list"

fun check_arms :: "signature \<Rightarrow> (nat \<times> pattern \<times> bool) list \<Rightarrow> arms_state \<Rightarrow> arms_state" where
  "check_arms sig [] st = st"
| "check_arms sig ((i, pat, has_guard) # arms) (rows, redundant, inaccessible) =
     (if has_guard then check_arms sig arms (rows, redundant, inaccessible)
      else
        let q = [pat];
            matrix = map fst rows;
            is_lazy_useful = lazy_useful matrix q sig;
            is_strict_useful = strict_useful matrix q sig;
            redundant' = (if \<not> is_lazy_useful then redundant @ [(i, covering_arms rows q sig)]
                          else redundant);
            inaccessible' = (if is_lazy_useful \<and> \<not> is_strict_useful then inaccessible @ [i]
                             else inaccessible)
        in check_arms sig arms (rows @ [(q, i)], redundant', inaccessible'))"

definition compute_witnesses :: "signature \<Rightarrow> pattern_matrix \<Rightarrow> pattern list" where
  "compute_witnesses sig matrix =
     concat (map (\<lambda>(tag, arity).
         if tag = Bottom then []
         else if strict_useful matrix [Constructor tag (replicate arity Wildcard)] sig
              then [Constructor tag (replicate arity Wildcard)] else []) sig)"

text \<open>\<open>has_guards\<close> has one flag per arm, as the caller builds it.\<close>

definition check_coverage ::
  "(u64 \<Rightarrow> u32 \<Rightarrow> u32) \<Rightarrow> pattern list \<Rightarrow> signature \<Rightarrow> bool list \<Rightarrow> coverage_result" where
  "check_coverage dead_hash arm_patterns sig has_guards =
     (let normalized = map (normalize_constructor_arities dead_hash sig) arm_patterns;
          arms = enumerate 0 (zip normalized has_guards);
          (rows, redundant, inaccessible) = check_arms sig arms ([], [], []);
          matrix = map fst rows;
          exhaustive = (\<not> strict_useful matrix [Wildcard] sig);
          uncovered = (if exhaustive then [] else compute_witnesses sig matrix)
      in \<lparr>cr_exhaustive = exhaustive, cr_uncovered = uncovered, cr_redundant = redundant,
          cr_inaccessible = inaccessible, cr_resolved = normalized\<rparr>)"

end
