(* ===== verification/Usefulness.thy ===== *)
theory Usefulness
  imports Coverage
begin

text \<open>
  The meaning of patterns and the correctness of the usefulness test: values are trees of
  constructors, \<open>vmatch\<close> says which values a normalised pattern accepts, and \<open>useful\<close>
  decides whether some value over the signature is accepted by a vector and by no row.
\<close>

section \<open>Values and matching\<close>

datatype cvalue = CV ctor_tag "cvalue list"

fun vmatch :: "pattern \<Rightarrow> cvalue \<Rightarrow> bool"
  and vmatches :: "pattern_vector \<Rightarrow> cvalue list \<Rightarrow> bool" where
  "vmatch Wildcard v = True"
| "vmatch (Constructor t ps) (CV t' vs) = (t = t' \<and> vmatches ps vs)"
| "vmatches [] [] = True"
| "vmatches (p # ps) (v # vs) = (vmatch p v \<and> vmatches ps vs)"
| "vmatches [] (v # vs) = False"
| "vmatches (p # ps) [] = False"

text \<open>The values over a signature: every constructor is declared and has its arity.\<close>

fun over :: "signature \<Rightarrow> cvalue \<Rightarrow> bool" where
  "over sig (CV t vs) =
     (t \<in> sig_tags sig \<and> length vs = sig_arity sig t \<and> (\<forall>v \<in> set vs. over sig v))"

text \<open>Column consistency: a constructor has the same number of sub-patterns everywhere.\<close>

fun arity_ok :: "(ctor_tag \<Rightarrow> nat) \<Rightarrow> pattern \<Rightarrow> bool" where
  "arity_ok ar Wildcard = True"
| "arity_ok ar (Constructor t ps) = (length ps = ar t \<and> (\<forall>p \<in> set ps. arity_ok ar p))"

fun tags_in :: "signature \<Rightarrow> pattern \<Rightarrow> bool" where
  "tags_in sig Wildcard = True"
| "tags_in sig (Constructor t ps) = (t \<in> sig_tags sig \<and> (\<forall>p \<in> set ps. tags_in sig p))"

definition row_ok :: "(ctor_tag \<Rightarrow> nat) \<Rightarrow> nat \<Rightarrow> pattern_vector \<Rightarrow> bool" where
  "row_ok ar n row \<longleftrightarrow> length row = n \<and> (\<forall>p \<in> set row. arity_ok ar p)"

definition sig_fits :: "(ctor_tag \<Rightarrow> nat) \<Rightarrow> signature \<Rightarrow> bool" where
  "sig_fits ar sig \<longleftrightarrow> (\<forall>t \<in> sig_tags sig. ar t = sig_arity sig t)"

definition covered :: "pattern_matrix \<Rightarrow> cvalue list \<Rightarrow> bool" where
  "covered m vs \<longleftrightarrow> (\<exists>row \<in> set m. vmatches row vs)"

lemma covered_simps [simp]: "\<not> covered [] vs" "covered (r # m) vs \<longleftrightarrow> vmatches r vs \<or> covered m vs"
  "covered (m @ n) vs \<longleftrightarrow> covered m vs \<or> covered n vs"
  by (auto simp: covered_def)

lemma vmatches_length: "vmatches ps vs \<Longrightarrow> length ps = length vs"
  by (induction ps arbitrary: vs) (case_tac vs; simp)+

lemma vmatches_append:
  "length ps = length xs \<Longrightarrow> vmatches (ps @ qs) (xs @ vs) \<longleftrightarrow> vmatches ps xs \<and> vmatches qs vs"
  by (induction ps xs rule: list_induct2) auto

lemma vmatches_wildcards: "vmatches (replicate n Wildcard) xs \<longleftrightarrow> length xs = n"
  by (induction n arbitrary: xs) (case_tac xs; simp)+

lemma vmatches_ConsE:
  assumes "vmatches (p # ps) vs"
  obtains v ws where "vs = v # ws" "vmatch p v" "vmatches ps ws"
  using assms by (cases vs) auto

section \<open>The matrix operations\<close>

lemma specialize_covered:
  assumes "\<forall>r \<in> set m. row_ok ar (Suc n) r" and "ar t = length xs"
  shows "covered (specialize t (length xs) m) (xs @ ws) \<longleftrightarrow> covered m (CV t xs # ws)"
  using assms
proof (induction m)
  case (Cons r m)
  then obtain p rest where r: "r = p # rest" by (cases r) (auto simp: row_ok_def)
  have "covered (specialize_row t (length xs) r) (xs @ ws) \<longleftrightarrow> vmatches r (CV t xs # ws)"
  proof (cases p)
    case (Constructor t' ps)
    with Cons.prems r have "t' = t \<Longrightarrow> length ps = length xs" by (auto simp: row_ok_def)
    with Constructor r show ?thesis by (auto simp: specialize_row_def vmatches_append)
  next
    case Wildcard
    with r show ?thesis by (simp add: specialize_row_def vmatches_append vmatches_wildcards)
  qed
  with Cons show ?case by simp
qed simp

lemma specialize_rows_ok:
  assumes "\<forall>r \<in> set m. row_ok ar (Suc n) r" and "ar t = a"
  shows "\<forall>r \<in> set (specialize t a m). row_ok ar (a + n) r"
proof -
  have "\<forall>r' \<in> set (specialize_row t a r). row_ok ar (a + n) r'" if "row_ok ar (Suc n) r" for r
  proof (cases r)
    case (Cons p rest)
    with that assms(2) show ?thesis
      by (cases p) (auto simp: specialize_row_def row_ok_def)
  qed (simp add: specialize_row_def)
  with assms(1) show ?thesis by (auto simp: specialize_def)
qed

lemma default_covered:
  assumes "\<forall>r \<in> set m. row_ok ar (Suc n) r"
  shows "covered (default_matrix m) ws \<Longrightarrow> covered m (v # ws)"
    and "v = CV t xs \<Longrightarrow> t \<notin> head_constructors m \<Longrightarrow> covered m (v # ws) \<Longrightarrow> covered (default_matrix m) ws"
  using assms
  by (induction m) (auto simp: default_row_def row_ok_def collect_head_tags_def
      split: list.splits pattern.splits)

lemma default_rows_ok:
  "\<forall>r \<in> set m. row_ok ar (Suc n) r \<Longrightarrow> \<forall>r \<in> set (default_matrix m). row_ok ar n r"
  by (auto simp: default_matrix_def default_row_def row_ok_def split: list.splits pattern.splits)

section \<open>Soundness\<close>

lemma useful_sound:
  "\<not> useful m q sig \<Longrightarrow> sig_fits ar sig \<Longrightarrow> \<forall>r \<in> set m. row_ok ar (length q) r \<Longrightarrow>
   \<forall>p \<in> set q. arity_ok ar p \<Longrightarrow> \<forall>v \<in> set vs. over sig v \<Longrightarrow> vmatches q vs \<Longrightarrow> covered m vs"
proof (induction m q sig arbitrary: vs rule: useful.induct)
  case (1 m sig)
  from 1(1) obtain r m' where m: "m = r # m'" by (cases m) (auto simp: useful.simps)
  with 1(3) have "r = []" by (simp add: row_ok_def)
  with 1(6) m show ?case by (cases vs) auto
next
  case (2 m tag subs rest sig)
  from 2(7) obtain xs ws where vs: "vs = CV tag xs # ws" "vmatches subs xs" "vmatches rest ws"
    by (auto elim!: vmatches_ConsE simp: vmatch.simps elim: vmatch.elims)
  then have len: "length subs = length xs" by (simp add: vmatches_length)
  from 2(5) have ar: "ar tag = length xs" by (simp add: len)
  have "covered (specialize tag (length subs) m) (xs @ ws)"
  proof (rule "2.IH")
    show "\<not> useful (specialize tag (length subs) m) (subs @ rest) sig"
      using 2(2) by (simp add: useful.simps)
    show "\<forall>r \<in> set (specialize tag (length subs) m). row_ok ar (length (subs @ rest)) r"
      using specialize_rows_ok [of m ar "length rest" tag "length subs"] 2(4) ar len by simp
    show "vmatches (subs @ rest) (xs @ ws)" using vs len by (simp add: vmatches_append)
  qed (use 2 vs in auto)
  then show ?case using specialize_covered [of m ar "length rest" tag xs ws] 2(4) vs ar len by simp
next
  case (3 m rest sig)
  from 3(8) obtain v ws where vs: "vs = v # ws" "vmatches rest ws" by (auto elim!: vmatches_ConsE)
  obtain t xs where v: "v = CV t xs" by (cases v)
  with 3(7) vs have t: "t \<in> sig_tags sig" "length xs = sig_arity sig t" "\<forall>u \<in> set xs. over sig u" by auto
  then have ar: "ar t = length xs" using 3(4) by (simp add: sig_fits_def)
  show ?case
  proof (cases "sig_tags sig \<subseteq> head_constructors m \<and> sig_tags sig \<noteq> {}")
    case True
    have "covered (specialize t (sig_arity sig t) m) (xs @ ws)"
    proof (rule "3.IH"(1) [OF True t(1)])
      show "\<not> useful (specialize t (sig_arity sig t) m) (replicate (sig_arity sig t) Wildcard @ rest) sig"
        using 3(3) True t(1) by (auto simp: useful.simps)
      show "\<forall>r \<in> set (specialize t (sig_arity sig t) m).
          row_ok ar (length (replicate (sig_arity sig t) Wildcard @ rest)) r"
        using specialize_rows_ok [of m ar "length rest" t "sig_arity sig t"] 3(5) ar t(2) by simp
      show "vmatches (replicate (sig_arity sig t) Wildcard @ rest) (xs @ ws)"
        using vs t(2) by (simp add: vmatches_append vmatches_wildcards)
    qed (use 3 vs t in auto)
    then show ?thesis using specialize_covered [of m ar "length rest" t xs ws] 3(5) vs v ar t(2) by simp
  next
    case False
    have "covered (default_matrix m) ws"
    proof (rule "3.IH"(2) [OF False])
      show "\<not> useful (default_matrix m) rest sig" using 3(3) False by (auto simp: useful.simps)
      show "\<forall>r \<in> set (default_matrix m). row_ok ar (length rest) r"
        using default_rows_ok 3(5) by simp
    qed (use 3 vs in auto)
    then show ?thesis using default_covered(1) [of m ar "length rest"] 3(5) vs by simp
  qed
qed

section \<open>Completeness\<close>

lemma useful_complete:
  "useful m q sig \<Longrightarrow> sig_fits ar sig \<Longrightarrow> \<forall>r \<in> set m. row_ok ar (length q) r \<Longrightarrow>
   \<forall>p \<in> set q. arity_ok ar p \<and> tags_in sig p \<Longrightarrow> over sig v0 \<Longrightarrow>
   \<exists>vs. (\<forall>v \<in> set vs. over sig v) \<and> vmatches q vs \<and> \<not> covered m vs"
proof (induction m q sig rule: useful.induct)
  case (1 m sig)
  then show ?case by (intro exI [of _ "[]"]) (simp add: useful.simps)
next
  case (2 m tag subs rest sig)
  from 2(5) have ar: "ar tag = length subs" by simp
  have "\<exists>vs. (\<forall>v \<in> set vs. over sig v) \<and> vmatches (subs @ rest) vs
      \<and> \<not> covered (specialize tag (length subs) m) vs"
  proof (rule "2.IH")
    show "\<forall>r \<in> set (specialize tag (length subs) m). row_ok ar (length (subs @ rest)) r"
      using specialize_rows_ok [of m ar "length rest" tag "length subs"] 2(4) ar by simp
  qed (use 2 in \<open>auto simp: useful.simps\<close>)
  then obtain vs where vs: "\<forall>v \<in> set vs. over sig v" "vmatches (subs @ rest) vs"
    "\<not> covered (specialize tag (length subs) m) vs" by blast
  define xs ws where "xs = take (length subs) vs" and "ws = drop (length subs) vs"
  have len: "length xs = length subs" and eq: "vs = xs @ ws"
    using vmatches_length [OF vs(2)] by (simp_all add: xs_def ws_def)
  have "over sig (CV tag xs)" "\<forall>w \<in> set ws. over sig w"
    using 2(3,5) vs(1) len ar unfolding eq by (auto simp: sig_fits_def)
  moreover have "vmatches (Constructor tag subs # rest) (CV tag xs # ws)"
    using vs(2) len by (simp add: eq vmatches_append)
  moreover have "\<not> covered m (CV tag xs # ws)"
    using specialize_covered [of m ar "length rest" tag xs ws] 2(4) vs(3) ar len by (simp add: eq)
  ultimately show ?case by (intro exI [of _ "CV tag xs # ws"]) simp
next
  case (3 m rest sig)
  show ?case
  proof (cases "sig_tags sig \<subseteq> head_constructors m \<and> sig_tags sig \<noteq> {}")
    case True
    then obtain t where t: "t \<in> sig_tags sig"
      "useful (specialize t (sig_arity sig t) m) (replicate (sig_arity sig t) Wildcard @ rest) sig"
      using 3(3) by (auto simp: useful.simps)
    then have ar: "ar t = sig_arity sig t" using 3(4) by (simp add: sig_fits_def)
    have "\<exists>vs. (\<forall>v \<in> set vs. over sig v) \<and> vmatches (replicate (sig_arity sig t) Wildcard @ rest) vs
        \<and> \<not> covered (specialize t (sig_arity sig t) m) vs"
    proof (rule "3.IH"(1) [OF True t(1) t(2)])
      show "\<forall>r \<in> set (specialize t (sig_arity sig t) m).
          row_ok ar (length (replicate (sig_arity sig t) Wildcard @ rest)) r"
        using specialize_rows_ok [of m ar "length rest" t "sig_arity sig t"] 3(5) ar by simp
    qed (use 3 in auto)
    then obtain vs where vs: "\<forall>v \<in> set vs. over sig v"
      "vmatches (replicate (sig_arity sig t) Wildcard @ rest) vs"
      "\<not> covered (specialize t (sig_arity sig t) m) vs" by blast
    define xs ws where "xs = take (sig_arity sig t) vs" and "ws = drop (sig_arity sig t) vs"
    have len: "length xs = sig_arity sig t" and eq: "vs = xs @ ws"
      using vmatches_length [OF vs(2)] by (simp_all add: xs_def ws_def)
    have "over sig (CV t xs)" "\<forall>w \<in> set ws. over sig w"
      using t(1) vs(1) len unfolding eq by auto
    moreover have "vmatches (Wildcard # rest) (CV t xs # ws)"
      using vs(2) len by (simp add: eq vmatches_append)
    moreover have "\<not> covered m (CV t xs # ws)"
      using specialize_covered [of m ar "length rest" t xs ws] 3(5) vs(3) ar len by (simp add: eq)
    ultimately show ?thesis by (intro exI [of _ "CV t xs # ws"]) simp
  next
    case False
    have "\<exists>vs. (\<forall>v \<in> set vs. over sig v) \<and> vmatches rest vs \<and> \<not> covered (default_matrix m) vs"
    proof (rule "3.IH"(2) [OF False])
      show "useful (default_matrix m) rest sig" using 3(3) False by (auto simp: useful.simps)
      show "\<forall>r \<in> set (default_matrix m). row_ok ar (length rest) r" using default_rows_ok 3(5) by simp
    qed (use 3 in auto)
    then obtain ws where ws: "\<forall>v \<in> set ws. over sig v" "vmatches rest ws"
      "\<not> covered (default_matrix m) ws" by blast
    have "sig_tags sig \<noteq> {}" using 3(7) by (cases v0) auto
    with False obtain t where t: "t \<in> sig_tags sig" "t \<notin> head_constructors m" by blast
    let ?v = "CV t (replicate (sig_arity sig t) v0)"
    have "over sig ?v" using t(1) 3(7) by simp
    moreover have "\<not> covered m (?v # ws)"
      using default_covered(2) [of m ar "length rest" ?v t _ ws] 3(5) ws(3) t(2) by auto
    ultimately show ?thesis using ws by (intro exI [of _ "?v # ws"]) simp
  qed
qed

text \<open>Both directions, for vectors over the signature.\<close>

lemma useful_iff:
  assumes "sig_fits ar sig" and "over sig v0" and "\<forall>r \<in> set m. row_ok ar (length q) r"
    and "\<forall>p \<in> set q. arity_ok ar p \<and> tags_in sig p"
  shows "useful m q sig \<longleftrightarrow> (\<exists>vs. (\<forall>v \<in> set vs. over sig v) \<and> vmatches q vs \<and> \<not> covered m vs)"
  using useful_complete [OF _ assms(1,3,4,2)] useful_sound [OF _ assms(1,3)] assms(4) by blast

end
