(* ===== verification/Coverage_Correct.thy ===== *)
theory Coverage_Correct
  imports Usefulness
begin

text \<open>
  The correctness of \<open>check_coverage\<close> against the meaning of patterns as the source reads
  them: normalisation keeps that meaning, the match is reported exhaustive exactly when the
  unguarded arms accept every value, an arm is reported redundant exactly when earlier
  unguarded arms accept all it accepts, and the witnesses are the uncovered constructors.
\<close>

section \<open>The meaning of source patterns\<close>

text \<open>
  A bare constructor name accepts any payload; otherwise the sub-patterns accept the
  components one by one.
\<close>

definition is_variant :: "ctor_tag \<Rightarrow> bool" where
  "is_variant t = (case t of Variant _ _ \<Rightarrow> True | _ \<Rightarrow> False)"

fun accepts :: "pattern \<Rightarrow> cvalue \<Rightarrow> bool"
  and accepts_all :: "pattern_vector \<Rightarrow> cvalue list \<Rightarrow> bool" where
  "accepts Wildcard v = True"
| "accepts (Constructor t ps) (CV t' vs) = (t = t' \<and> (is_variant t \<and> ps = [] \<or> accepts_all ps vs))"
| "accepts_all [] [] = True"
| "accepts_all (p # ps) (v # vs) = (accepts p v \<and> accepts_all ps vs)"
| "accepts_all [] (v # vs) = False"
| "accepts_all (p # ps) [] = False"

abbreviation with_bottom :: "signature \<Rightarrow> signature" where
  "with_bottom sig \<equiv> sig @ [(Bottom, 0)]"

text \<open>
  What the callers build: \<open>\<bottom>\<close> is not declared, variants carry at most one payload, and the
  synthetic tag of dead patterns is not a declared constructor.
\<close>

definition sig_plain :: "(u64 \<Rightarrow> u32 \<Rightarrow> u32) \<Rightarrow> signature \<Rightarrow> bool" where
  "sig_plain h sig \<longleftrightarrow> Bottom \<notin> sig_tags sig
     \<and> (\<forall>t \<in> sig_tags sig. is_variant t \<longrightarrow> sig_arity sig t \<le> 1)
     \<and> (\<forall>i c. dead_tag h i c \<notin> sig_tags sig)"

lemma sig_tags_bottom: "sig_tags (with_bottom sig) = insert Bottom (sig_tags sig)"
  by (simp add: sig_tags_def)

lemma find_append: "find P (xs @ ys) = (case find P xs of None \<Rightarrow> find P ys | Some x \<Rightarrow> Some x)"
  by (induction xs) auto

lemma sig_arity_bottom: "t \<noteq> Bottom \<Longrightarrow> sig_arity (with_bottom sig) t = sig_arity sig t"
  by (auto simp: sig_arity_def find_append split: option.splits)

lemma sig_arity_Bottom: "Bottom \<notin> sig_tags sig \<Longrightarrow> sig_arity (with_bottom sig) Bottom = 0"
proof -
  assume "Bottom \<notin> sig_tags sig"
  then have "find (\<lambda>(t, _). t = Bottom) sig = None"
    by (force simp: find_None_iff sig_tags_def)
  then show ?thesis by (simp add: sig_arity_def find_append)
qed

lemma over_with_bottom: "sig_plain h sig \<Longrightarrow> over sig v \<Longrightarrow> over (with_bottom sig) v"
proof (induction sig v rule: over.induct)
  case (1 sig t vs)
  then have "t \<noteq> Bottom" by (auto simp: sig_plain_def)
  with 1 show ?case by (auto simp: sig_tags_bottom sig_arity_bottom)
qed

lemma accepts_all_iff: "accepts_all ps vs \<longleftrightarrow> list_all2 accepts ps vs"
  by (induction ps arbitrary: vs) (case_tac vs; simp)+

lemma vmatches_iff: "vmatches ps vs \<longleftrightarrow> list_all2 vmatch ps vs"
  by (induction ps arbitrary: vs) (case_tac vs; simp)+

lemma normalize_accepts:
  "sig_plain h sig \<Longrightarrow> over (with_bottom sig) v \<Longrightarrow>
   vmatch (normalize_constructor_arities h sig p) v \<longleftrightarrow> accepts p v"
proof (induction p arbitrary: v)
  case (Constructor tag subs)
  note plain = Constructor.prems(1)
  obtain t vs where v: "v = CV t vs" by (cases v)
  with Constructor.prems(2) have o: "t \<in> insert Bottom (sig_tags sig)" "\<forall>x \<in> set vs. over (with_bottom sig) x"
    "length vs = sig_arity (with_bottom sig) t" by (auto simp: sig_tags_bottom)
  have sub: "vmatches (map (normalize_constructor_arities h sig) subs) vs \<longleftrightarrow> accepts_all subs vs"
    unfolding accepts_all_iff vmatches_iff using Constructor.IH [OF _ plain] o(2)
    by (auto simp: list_all2_conv_all_nth)
  show ?case
  proof (cases tag)
    case tag: (Variant i c)
    have nb: "t = tag \<Longrightarrow> length vs = sig_arity sig tag \<and> length vs \<le> 1"
      using o(1,3) plain tag by (auto simp: sig_arity_bottom sig_plain_def is_variant_def)
    have dead: "t \<noteq> dead_tag h i c"
      using o(1) plain by (auto simp: sig_plain_def dead_tag_def)
    show ?thesis
    proof (cases "subs = []")
      case True
      have "t = tag \<Longrightarrow> vmatches (if sig_arity sig tag = 1 then [Wildcard] else []) vs"
        using nb by (cases vs) auto
      with True tag v show ?thesis by (auto simp: is_variant_def)
    next
      case ne: False
      show ?thesis
      proof (cases "length subs = 1 \<and> sig_arity sig tag = 0")
        case True
        have "t = tag \<Longrightarrow> \<not> accepts_all subs vs" using nb True by (auto simp: accepts_all_iff)
        with True ne tag v dead show ?thesis by auto
      next
        case False
        with sub ne tag v show ?thesis by auto
      qed
    qed
  next
    case tag: (DictKey k)
    from sub tag v show ?thesis by (auto simp: is_variant_def)
  next
    case tag: (LiteralInt k)
    from sub tag v show ?thesis by (auto simp: is_variant_def)
  next
    case tag: (LiteralStr k)
    from sub tag v show ?thesis by (auto simp: is_variant_def)
  next
    case tag: Bottom
    from sub tag v show ?thesis by (auto simp: is_variant_def)
  qed
qed simp

section \<open>The loop over the arms\<close>

definition rows_of :: "(nat \<times> pattern \<times> bool) list \<Rightarrow> (pattern_vector \<times> nat) list" where
  "rows_of arms = map (\<lambda>(i, p, g). ([p], i)) (filter (\<lambda>(i, p, g). \<not> g) arms)"

lemma rows_of_simps [simp]:
  "rows_of [] = []"
  "rows_of ((i, p, g) # arms) = (if g then rows_of arms else ([p], i) # rows_of arms)"
  by (simp_all add: rows_of_def)

lemma check_arms_rows: "fst (check_arms sig arms st) = fst st @ rows_of arms"
  by (induction sig arms st rule: check_arms.induct) (auto simp: Let_def)

text \<open>The reports of the loop, each at the arm that caused it.\<close>

fun redundant_from :: "signature \<Rightarrow> (pattern_vector \<times> nat) list \<Rightarrow> (nat \<times> pattern \<times> bool) list \<Rightarrow> (nat \<times> nat list) list" where
  "redundant_from sig rows [] = []"
| "redundant_from sig rows ((i, p, g) # arms) =
     (if \<not> g \<and> \<not> lazy_useful (map fst rows) [p] sig then [(i, covering_arms rows [p] sig)] else [])
     @ redundant_from sig (rows @ rows_of [(i, p, g)]) arms"

fun inaccessible_from :: "signature \<Rightarrow> (pattern_vector \<times> nat) list \<Rightarrow> (nat \<times> pattern \<times> bool) list \<Rightarrow> nat list" where
  "inaccessible_from sig rows [] = []"
| "inaccessible_from sig rows ((i, p, g) # arms) =
     (if \<not> g \<and> lazy_useful (map fst rows) [p] sig \<and> \<not> strict_useful (map fst rows) [p] sig then [i] else [])
     @ inaccessible_from sig (rows @ rows_of [(i, p, g)]) arms"

lemma check_arms_reports:
  "snd (check_arms sig arms (rows, red, ina))
   = (red @ redundant_from sig rows arms, ina @ inaccessible_from sig rows arms)"
  by (induction arms arbitrary: rows red ina) (auto simp: Let_def)

lemma redundant_from_iff:
  "(k, cov) \<in> set (redundant_from sig rows arms) \<longleftrightarrow>
   (\<exists>n < length arms. \<exists>p. arms ! n = (k, p, False)
      \<and> \<not> lazy_useful (map fst (rows @ rows_of (take n arms))) [p] sig
      \<and> cov = covering_arms (rows @ rows_of (take n arms)) [p] sig)"
proof (induction arms arbitrary: rows)
  case (Cons a arms)
  obtain i p g where a: "a = (i, p, g)" by (cases a)
  show ?case
    unfolding a redundant_from.simps set_append Un_iff Cons.IH length_Cons Ex_less_Suc2
    by (auto split: if_splits)
qed simp

lemma inaccessible_from_iff:
  "k \<in> set (inaccessible_from sig rows arms) \<longleftrightarrow>
   (\<exists>n < length arms. \<exists>p. arms ! n = (k, p, False)
      \<and> lazy_useful (map fst (rows @ rows_of (take n arms))) [p] sig
      \<and> \<not> strict_useful (map fst (rows @ rows_of (take n arms))) [p] sig)"
proof (induction arms arbitrary: rows)
  case (Cons a arms)
  obtain i p g where a: "a = (i, p, g)" by (cases a)
  show ?case
    unfolding a inaccessible_from.simps set_append Un_iff Cons.IH length_Cons Ex_less_Suc2
    by (auto split: if_splits)
qed simp

section \<open>One match expression\<close>

text \<open>Some unguarded arm before position \<open>k\<close> accepts the value.\<close>

definition caught :: "pattern list \<Rightarrow> bool list \<Rightarrow> nat \<Rightarrow> cvalue \<Rightarrow> bool" where
  "caught arms guards k v \<longleftrightarrow> (\<exists>j < k. \<not> guards ! j \<and> accepts (arms ! j) v)"

text \<open>The column consistency of the normalised arms, and the shape of the signature.\<close>

definition match_ok :: "(ctor_tag \<Rightarrow> nat) \<Rightarrow> (u64 \<Rightarrow> u32 \<Rightarrow> u32) \<Rightarrow> signature \<Rightarrow> pattern list \<Rightarrow> bool list \<Rightarrow> bool" where
  "match_ok ar h sig arms guards \<longleftrightarrow>
     sig_plain h sig \<and> sig_fits ar sig \<and> ar Bottom = 0 \<and> length guards = length arms
     \<and> (\<forall>p \<in> set arms. arity_ok ar (normalize_constructor_arities h sig p))"

abbreviation arm_table :: "(u64 \<Rightarrow> u32 \<Rightarrow> u32) \<Rightarrow> signature \<Rightarrow> pattern list \<Rightarrow> bool list \<Rightarrow> (nat \<times> pattern \<times> bool) list" where
  "arm_table h sig arms guards \<equiv>
     enumerate 0 (zip (map (normalize_constructor_arities h sig) arms) guards)"

lemma check_coverage_fields:
  "cr_exhaustive (check_coverage h arms sig guards)
     \<longleftrightarrow> \<not> strict_useful (map fst (rows_of (arm_table h sig arms guards))) [Wildcard] sig"
  "cr_uncovered (check_coverage h arms sig guards)
     = (if cr_exhaustive (check_coverage h arms sig guards) then []
        else compute_witnesses sig (map fst (rows_of (arm_table h sig arms guards))))"
  "cr_redundant (check_coverage h arms sig guards) = redundant_from sig [] (arm_table h sig arms guards)"
  "cr_inaccessible (check_coverage h arms sig guards) = inaccessible_from sig [] (arm_table h sig arms guards)"
proof -
  let ?t = "arm_table h sig arms guards"
  have "check_arms sig ?t ([], [], []) = (rows_of ?t, redundant_from sig [] ?t, inaccessible_from sig [] ?t)"
    using check_arms_rows [of sig ?t "([], [], [])"] check_arms_reports [of sig ?t "[]" "[]" "[]"]
    by (auto intro: prod_eqI)
  then show "cr_exhaustive (check_coverage h arms sig guards) \<longleftrightarrow> \<not> strict_useful (map fst (rows_of ?t)) [Wildcard] sig"
    and "cr_uncovered (check_coverage h arms sig guards)
     = (if cr_exhaustive (check_coverage h arms sig guards) then []
        else compute_witnesses sig (map fst (rows_of ?t)))"
    and "cr_redundant (check_coverage h arms sig guards) = redundant_from sig [] ?t"
    and "cr_inaccessible (check_coverage h arms sig guards) = inaccessible_from sig [] ?t"
    by (simp_all add: check_coverage_def Let_def)
qed

lemma arm_table_nth:
  "length guards = length arms \<Longrightarrow> n < length arms \<Longrightarrow>
   arm_table h sig arms guards ! n = (n, normalize_constructor_arities h sig (arms ! n), guards ! n)"
  by (simp add: nth_enumerate_eq)

lemma rows_of_take:
  assumes "length guards = length arms" and "k \<le> length arms"
  shows "(row, j) \<in> set (rows_of (take k (arm_table h sig arms guards))) \<longleftrightarrow>
    j < k \<and> \<not> guards ! j \<and> row = [normalize_constructor_arities h sig (arms ! j)]"
proof -
  have "(i, p, g) \<in> set (take k (arm_table h sig arms guards)) \<longleftrightarrow>
      i < k \<and> p = normalize_constructor_arities h sig (arms ! i) \<and> g = guards ! i" for i p g
    using assms by (auto simp: in_set_conv_nth nth_enumerate_eq)
  then show ?thesis by (auto simp: rows_of_def image_iff)
qed

lemma rows_of_table:
  assumes "length guards = length arms" and "k \<le> length arms"
  shows "rows_of (take k (arm_table h sig arms guards))
    = map (\<lambda>j. ([normalize_constructor_arities h sig (arms ! j)], j)) (filter (\<lambda>j. \<not> guards ! j) [0..<k])"
proof -
  have "take k (arm_table h sig arms guards)
      = map (\<lambda>j. (j, normalize_constructor_arities h sig (arms ! j), guards ! j)) [0..<k]"
    using assms by (intro nth_equalityI) (auto simp: nth_enumerate_eq)
  then show ?thesis by (simp add: rows_of_def filter_map comp_def)
qed

lemma sig_arity_entry: "distinct (map fst sig) \<Longrightarrow> (t, a) \<in> set sig \<Longrightarrow> sig_arity sig t = a"
  unfolding sig_arity_def by (induction sig) (force split: if_splits)+

text \<open>The rows before an arm cover a value exactly when an earlier unguarded arm accepts it.\<close>

lemma covered_caught:
  assumes "match_ok ar h sig arms guards" and "k \<le> length arms" and "over (with_bottom sig) v"
  shows "covered (map fst (rows_of (take k (arm_table h sig arms guards)))) [v] \<longleftrightarrow> caught arms guards k v"
proof -
  have "covered (map fst (rows_of (take k (arm_table h sig arms guards)))) [v] \<longleftrightarrow>
      (\<exists>row j. (row, j) \<in> set (rows_of (take k (arm_table h sig arms guards))) \<and> vmatches row [v])"
    by (force simp: covered_def)
  also have "\<dots> \<longleftrightarrow> caught arms guards k v"
    using assms normalize_accepts [of h sig v] rows_of_take [of guards arms k]
    by (auto simp: caught_def match_ok_def)
  finally show ?thesis .
qed

lemma rows_ok:
  assumes "match_ok ar h sig arms guards" and "k \<le> length arms"
  shows "\<forall>r \<in> set (map fst (rows_of (take k (arm_table h sig arms guards)))). row_ok ar 1 r"
  using assms rows_of_take [of guards arms k _ _ h sig] by (auto simp: match_ok_def row_ok_def)

lemma single_column:
  "(\<exists>vs. (\<forall>v \<in> set vs. over sig v) \<and> vmatches [p] vs \<and> \<not> covered m vs)
   \<longleftrightarrow> (\<exists>v. over sig v \<and> vmatch p v \<and> \<not> covered m [v])"
proof
  assume "\<exists>vs. (\<forall>v \<in> set vs. over sig v) \<and> vmatches [p] vs \<and> \<not> covered m vs"
  then obtain vs where vs: "\<forall>v \<in> set vs. over sig v" "vmatches [p] vs" "\<not> covered m vs" by blast
  then obtain v where "vs = [v]" by (cases vs; cases "tl vs") auto
  with vs show "\<exists>v. over sig v \<and> vmatch p v \<and> \<not> covered m [v]" by auto
next
  assume "\<exists>v. over sig v \<and> vmatch p v \<and> \<not> covered m [v]"
  then obtain v where "over sig v" "vmatch p v" "\<not> covered m [v]" by blast
  then show "\<exists>vs. (\<forall>v \<in> set vs. over sig v) \<and> vmatches [p] vs \<and> \<not> covered m vs"
    by (intro exI [of _ "[v]"]) simp
qed

section \<open>A concrete match\<close>

text \<open>
  An option type with the constructors \<open>Some\<close> (one payload) and \<open>None\<close>, and the arms
  \<open>[Some]\<close>, \<open>[None]\<close>, \<open>[Some [None]]\<close>.
\<close>

definition some_tag :: ctor_tag where "some_tag = Variant 100 0"
definition none_tag :: ctor_tag where "none_tag = Variant 100 1"

definition option_sig :: signature where
  "option_sig = [(some_tag, 1), (none_tag, 0)]"

definition option_arity :: "ctor_tag \<Rightarrow> nat" where
  "option_arity t = (if t = some_tag then 1 else 0)"

definition option_arms :: "pattern list" where
  "option_arms = [Constructor some_tag [], Constructor none_tag [],
     Constructor some_tag [Constructor none_tag []]]"

lemmas option_defs = option_sig_def some_tag_def none_tag_def option_arity_def option_arms_def

lemma option_tags: "sig_tags option_sig = {some_tag, none_tag}"
  by (simp add: sig_tags_def option_sig_def)

lemma option_ok:
  "n \<le> 3 \<Longrightarrow> match_ok option_arity (\<lambda>_ _. 0) option_sig (take n option_arms) (replicate n False)"
  by (auto simp: match_ok_def sig_plain_def sig_fits_def option_tags dead_tag_def dest!: in_set_takeD)
    (auto simp: option_defs sig_arity_def is_variant_def)

lemma over_none: "over option_sig (CV none_tag [])"
  by (simp add: option_tags) (simp add: option_defs sig_arity_def)

section \<open>The reports\<close>



lemma sig_fits_bottom: "match_ok ar h sig arms guards \<Longrightarrow> sig_fits ar (with_bottom sig)"
  unfolding match_ok_def sig_fits_def sig_tags_bottom sig_plain_def
  by (metis insert_iff sig_arity_bottom sig_arity_Bottom)

lemma over_Bottom: "sig_plain h sig \<Longrightarrow> over (with_bottom sig) (CV Bottom [])"
  by (simp add: sig_tags_bottom sig_arity_Bottom sig_plain_def)

text \<open>The lazy test on one arm: some possibly partial value reaches it.\<close>

lemma lazy_arm:
  assumes ok: "match_ok ar h sig arms guards" and p: "p \<in> set arms"
    and r: "\<forall>r \<in> set m. row_ok ar 1 r"
    and t: "tags_in (with_bottom sig) (normalize_constructor_arities h sig p)"
  shows "lazy_useful m [normalize_constructor_arities h sig p] sig \<longleftrightarrow>
    (\<exists>v. over (with_bottom sig) v \<and> accepts p v \<and> \<not> covered m [v])"
proof -
  have plain: "sig_plain h sig" using ok by (simp add: match_ok_def)
  have "lazy_useful m [normalize_constructor_arities h sig p] sig \<longleftrightarrow>
      (\<exists>v. over (with_bottom sig) v \<and> vmatch (normalize_constructor_arities h sig p) v \<and> \<not> covered m [v])"
    unfolding single_column [symmetric] lazy_useful_def
    using ok p r t by (intro useful_iff [OF sig_fits_bottom [OF ok] over_Bottom [OF plain]])
      (simp_all add: match_ok_def)
  with normalize_accepts [OF plain] show ?thesis by auto
qed





section \<open>Witnesses\<close>

lemma over_replicate: "over sig v0 \<Longrightarrow> t \<in> sig_tags sig \<Longrightarrow> over sig (CV t (replicate (sig_arity sig t) v0))"
  by simp



section \<open>Nested columns\<close>

text \<open>
  The signature of the scrutinee is used for nested columns too. Where a payload has another
  type than the scrutinee, the report can be wrong: the arms \<open>[Some [Some]]\<close>,
  \<open>[Some [None]]\<close>, \<open>[None]\<close> are reported exhaustive, and none of them accepts \<open>[Some 3]\<close>.
\<close>

lemma nested_signature_unsound:
  fixes arms :: "pattern list"
  defines "arms \<equiv> [Constructor some_tag [Constructor some_tag []],
    Constructor some_tag [Constructor none_tag []], Constructor none_tag []]"
  shows "cr_exhaustive (check_coverage (\<lambda>_ _. 0) arms option_sig [False, False, False])
    \<and> \<not> caught arms [False, False, False] 3 (CV some_tag [CV (LiteralInt 3) []])"
proof
  show "cr_exhaustive (check_coverage (\<lambda>_ _. 0) arms option_sig [False, False, False])"
    by (simp add: arms_def check_coverage_def Let_def option_defs lazy_useful_def strict_useful_def useful.simps
        sig_tags_def sig_arity_def collect_head_tags_def specialize_row_def default_row_def)
  show "\<not> caught arms [False, False, False] 3 (CV some_tag [CV (LiteralInt 3) []])"
    by (simp add: arms_def caught_def option_defs is_variant_def numeral_3_eq_3 Ex_less_Suc2)
qed

end
