(* ===== verification/Hashable_Value.thy ===== *)
theory Hashable_Value
  imports Symbol_Table "HOL-Library.FSet" "HOL-Library.Multiset"
begin

unbundle bit_operations_syntax

text \<open>
  The dictionary keys of \<^verbatim>\<open>src/value.rs\<close>: \<open>HashableValue\<close> with its equality, partial
  order, hash and display. Dictionaries are compared without regard to order through a
  \<open>HashMap\<close>, and hashed by a commutative sum. The hasher of the standard library
  (\<open>DefaultHasher\<close>) has an unspecified result, the parameter \<open>fin\<close>: what is modelled of a
  hash is the sequence of writes a value makes.
\<close>

section \<open>Keys\<close>

datatype hashable_value =
    HInt int
  | HStr str
  | HFloat u64
  | HDict "(hashable_value \<times> hashable_value) list"
  | HVariant u64 u32 "hashable_value option"

text \<open>
  Inserting the keys of a list into an empty \<open>HashMap\<close> one after the other, with \<open>False\<close>
  at the first key that is already there (\<open>map.insert(..).is_some()\<close>). A lookup compares the
  queried key with the stored one.
\<close>

fun all_new :: "('k \<Rightarrow> 'k \<Rightarrow> bool) \<Rightarrow> 'k list \<Rightarrow> ('k \<times> 'v) list \<Rightarrow> bool" where
  "all_new eq stored [] = True"
| "all_new eq stored ((k, v) # kvs) =
     (\<not> list_ex (\<lambda>s. eq k s) stored \<and> all_new eq (stored @ [k]) kvs)"

lemma all_new_cong [fundef_cong]:
  assumes "stored = stored'" and "kvs = kvs'"
    and "\<And>x y. x \<in> fst ` set kvs' \<Longrightarrow> y \<in> set stored' \<union> fst ` set kvs' \<Longrightarrow> eq x y = eq' x y"
  shows "all_new eq stored kvs = all_new eq' stored' kvs'"
  unfolding assms(1,2) using assms(3)
proof (induction kvs' arbitrary: stored')
  case (Cons e kvs')
  obtain k v where e: "e = (k, v)" by (cases e)
  have "list_ex (\<lambda>s. eq k s) stored' = list_ex (\<lambda>s. eq' k s) stored'"
    using Cons.prems e by (intro list_ex_cong) auto
  moreover have "all_new eq (stored' @ [k]) kvs' = all_new eq' (stored' @ [k]) kvs'"
    using Cons.prems e by (intro Cons.IH) auto
  ultimately show ?case by (simp add: e)
qed simp

lemma size_key [termination_simp]: "(k, v) \<in> set kvs \<Longrightarrow>
  size k < Suc (size_list (size_prod size size) kvs) \<and> size v < Suc (size_list (size_prod size size) kvs)"
  by (induction kvs) auto

lemma find_in: "find P xs = Some x \<Longrightarrow> x \<in> set xs"
  by (auto simp: find_Some_iff)

function (sequential) hv_eq :: "hashable_value \<Rightarrow> hashable_value \<Rightarrow> bool" where
  "hv_eq (HInt a) (HInt b) = (a = b)"
| "hv_eq (HStr a) (HStr b) = (a = b)"
| "hv_eq (HFloat a) (HFloat b) = (a = b)"
| "hv_eq (HDict a) (HDict b) =
     (if length a \<noteq> length b then False
      else if \<not> all_new hv_eq [] a then False
      else list_all (\<lambda>(k, v). case find (\<lambda>(k', u). hv_eq k k') a of
             None \<Rightarrow> False | Some (k', u) \<Rightarrow> hv_eq u v) b)"
| "hv_eq (HVariant d1 i1 p1) (HVariant d2 i2 p2) =
     (d1 = d2 \<and> i1 = i2 \<and> (case p1 of
        None \<Rightarrow> p2 = None
      | Some x \<Rightarrow> (case p2 of None \<Rightarrow> False | Some y \<Rightarrow> hv_eq x y)))"
| "hv_eq _ _ = False"
  by pat_completeness auto
termination
proof (relation "measure (\<lambda>(a, b). max (size a) (size b))", goal_cases)
  case (2 a b x y)
  then obtain u v where "(x, u) \<in> set a" "(y, v) \<in> set a" by auto
  then show ?case using size_key [of x u a] size_key [of y v a] by auto
next
  case 3
  then show ?case using size_key [of _ _ a for a] by fastforce
next
  case 4
  then show ?case by (auto dest!: find_in size_key)
qed auto

text \<open>The three-way comparisons of the standard library.\<close>

datatype ordering = Less | Equal | Greater

definition cmp :: "'a :: linorder \<Rightarrow> 'a \<Rightarrow> ordering" where
  "cmp a b = (if a < b then Less else if a = b then Equal else Greater)"

fun cmp_str :: "str \<Rightarrow> str \<Rightarrow> ordering" where
  "cmp_str [] [] = Equal"
| "cmp_str [] (y # ys) = Less"
| "cmp_str (x # xs) [] = Greater"
| "cmp_str (x # xs) (y # ys) = (case cmp x y of Equal \<Rightarrow> cmp_str xs ys | o' \<Rightarrow> o')"

definition hv_partial_cmp :: "hashable_value \<Rightarrow> hashable_value \<Rightarrow> ordering option" where
  "hv_partial_cmp a b =
     (case (a, b) of
        (HInt x, HInt y) \<Rightarrow> Some (cmp x y)
      | (HStr x, HStr y) \<Rightarrow> Some (cmp_str x y)
      | (HFloat x, HFloat y) \<Rightarrow> Some (cmp x y)
      | _ \<Rightarrow> None)"

section \<open>Hashing\<close>

definition splitmix64 :: "u64 \<Rightarrow> u64" where
  "splitmix64 x0 =
     (let x1 = x0 + 0x9e3779b97f4a7c15;
          x2 = (x1 XOR drop_bit 30 x1) * 0xbf58476d1ce4e5b9;
          x3 = (x2 XOR drop_bit 27 x2) * 0x94d049bb133111eb
      in x3 XOR drop_bit 31 x3)"

text \<open>The writes of \<open>Hash::hash\<close> into a hasher.\<close>

datatype hash_write = WriteU8 u8 | WriteU32 u32 | WriteU64 u64 | WriteI64 int | WriteStr str

fun hv_hash :: "(hash_write list \<Rightarrow> u64) \<Rightarrow> hashable_value \<Rightarrow> hash_write list" where
  "hv_hash fin (HInt n) = [WriteU8 0, WriteI64 n]"
| "hv_hash fin (HStr s) = [WriteU8 2, WriteStr s]"
| "hv_hash fin (HFloat bits) = [WriteU8 5, WriteU64 bits]"
| "hv_hash fin (HDict pairs) =
     [WriteU8 3,
      WriteU64 (foldl (\<lambda>sum (k, v). sum + splitmix64 (fin (hv_hash fin k) + fin (hv_hash fin v))) 0 pairs)]"
| "hv_hash fin (HVariant d i payload) =
     [WriteU8 4, WriteU64 d, WriteU32 i]
     @ (case payload of None \<Rightarrow> [WriteU8 0] | Some v \<Rightarrow> WriteU8 1 # hv_hash fin v)"

section \<open>Display\<close>

text \<open>\<open>fmt_f64\<close> is the standard library's display of the float with the given bits.\<close>

fun hv_display :: "(u64 \<Rightarrow> str) \<Rightarrow> hashable_value \<Rightarrow> str" where
  "hv_display fmt_f64 (HInt n) = int_to_str n"
| "hv_display fmt_f64 (HStr s) = s"
| "hv_display fmt_f64 (HFloat bits) = fmt_f64 bits"
| "hv_display fmt_f64 (HDict pairs) =
     us ''['' @ join_str (us ''  '')
       (map (\<lambda>(k, v). hv_display fmt_f64 k @ us '': '' @ hv_display fmt_f64 v) pairs) @ us '']''"
| "hv_display fmt_f64 (HVariant d i payload) =
     (let name = us ''Variant('' @ nat_to_str (unat d) @ us ''.'' @ nat_to_str (unat i) @ us '')''
      in case payload of
           None \<Rightarrow> name
         | Some p \<Rightarrow> us ''['' @ name @ us '' '' @ hv_display fmt_f64 p @ us '']'')"

end
