(* ===== verification/Key_Laws.thy ===== *)
theory Key_Laws
  imports Hashable_Value
begin

text \<open>
  The contract of dictionary keys: on values whose dictionaries have no duplicate keys the
  equality of \<open>HashableValue\<close> is an equivalence and equal values hash alike, so that a hash
  lookup finds what a scan finds. Equality is characterised by a canonical form in which
  dictionaries are finite sets. The mixer \<open>splitmix64\<close> is a bijection.
\<close>

section \<open>The contract of hashed keys\<close>

locale hashed_key =
  fixes valid :: "'k \<Rightarrow> bool"
    and eq :: "'k \<Rightarrow> 'k \<Rightarrow> bool"
    and hash :: "'k \<Rightarrow> 'h"
  assumes eq_refl: "valid a \<Longrightarrow> eq a a"
    and eq_sym: "valid a \<Longrightarrow> valid b \<Longrightarrow> eq a b \<Longrightarrow> eq b a"
    and eq_trans: "valid a \<Longrightarrow> valid b \<Longrightarrow> valid c \<Longrightarrow> eq a b \<Longrightarrow> eq b c \<Longrightarrow> eq a c"
    and hash_eq: "valid a \<Longrightarrow> valid b \<Longrightarrow> eq a b \<Longrightarrow> hash a = hash b"
begin

text \<open>Looking only at the keys of the right hash loses nothing.\<close>

lemma hash_lookup:
  assumes "valid q" and "\<forall>x \<in> set xs. valid (fst x)"
  shows "find (\<lambda>x. eq q (fst x)) (filter (\<lambda>x. hash q = hash (fst x)) xs) = find (\<lambda>x. eq q (fst x)) xs"
  using assms(2) by (induction xs) (auto dest: hash_eq [OF assms(1)])

text \<open>Equal keys select the same entry.\<close>

lemma lookup_eq:
  assumes "valid q" and "valid r" and "eq q r" and "\<forall>x \<in> set xs. valid (fst x)"
  shows "find (\<lambda>x. eq q (fst x)) xs = find (\<lambda>x. eq r (fst x)) xs"
  using assms(4)
proof (induction xs)
  case (Cons x xs)
  then have "eq q (fst x) \<longleftrightarrow> eq r (fst x)"
    using assms(1-3) by (metis eq_sym eq_trans list.set_intros(1))
  with Cons show ?case by simp
qed simp

end

section \<open>Canonical forms\<close>

datatype canonical =
    CInt int
  | CStr str
  | CFloat u64
  | CDict "(canonical \<times> canonical) fset"
  | CVariant u64 u32 "canonical option"

fun canon :: "hashable_value \<Rightarrow> canonical" where
  "canon (HInt n) = CInt n"
| "canon (HStr s) = CStr s"
| "canon (HFloat b) = CFloat b"
| "canon (HDict kvs) = CDict (fset_of_list (map (\<lambda>(k, v). (canon k, canon v)) kvs))"
| "canon (HVariant d i p) = CVariant d i (map_option canon p)"

text \<open>No dictionary inside the value has a key twice.\<close>

fun valid_key :: "hashable_value \<Rightarrow> bool" where
  "valid_key (HDict kvs) = (all_new hv_eq [] kvs \<and> (\<forall>(k, v) \<in> set kvs. valid_key k \<and> valid_key v))"
| "valid_key (HVariant d i (Some p)) = valid_key p"
| "valid_key _ = True"

abbreviation canon_pair :: "hashable_value \<times> hashable_value \<Rightarrow> canonical \<times> canonical" where
  "canon_pair \<equiv> \<lambda>(k, v). (canon k, canon v)"

lemma all_new_distinct:
  assumes "\<And>x y. x \<in> fst ` set kvs \<Longrightarrow> y \<in> set stored \<union> fst ` set kvs \<Longrightarrow> eq x y \<longleftrightarrow> c x = c y"
  shows "all_new eq stored kvs \<longleftrightarrow> distinct (map (c \<circ> fst) kvs) \<and> c ` set stored \<inter> (c \<circ> fst) ` set kvs = {}"
  using assms
proof (induction kvs arbitrary: stored)
  case (Cons e kvs)
  obtain k v where e: "e = (k, v)" by (cases e)
  have "list_ex (\<lambda>s. eq k s) stored \<longleftrightarrow> c k \<in> c ` set stored"
    using Cons.prems [of k] e by (auto simp: list_ex_iff image_iff)
  moreover have "all_new eq (stored @ [k]) kvs \<longleftrightarrow>
      distinct (map (c \<circ> fst) kvs) \<and> c ` set (stored @ [k]) \<inter> (c \<circ> fst) ` set kvs = {}"
    using Cons.prems e by (intro Cons.IH) auto
  ultimately show ?case using e by (auto simp: comp_def)
qed simp

lemma find_by_canon:
  assumes "distinct (map (canon \<circ> fst) kvs)"
  shows "(case find (\<lambda>(k', u). canon k = canon k') kvs of None \<Rightarrow> False | Some (k', u) \<Rightarrow> canon u = canon v)
    \<longleftrightarrow> (canon k, canon v) \<in> canon_pair ` set kvs"
  using assms by (induction kvs) (auto simp: image_iff split: prod.splits)

lemma distinct_pairs: "distinct (map (canon \<circ> fst) kvs) \<Longrightarrow> distinct (map canon_pair kvs)"
  by (induction kvs) force+

lemma fset_of_list_eq: "fset_of_list xs = fset_of_list ys \<longleftrightarrow> set xs = set ys"
  by (metis fset_inject fset_of_list.rep_eq)

lemma dict_sets:
  assumes "distinct (map fst A)" "distinct (map fst B)"
  shows "length A = length B \<and> set B \<subseteq> set A \<longleftrightarrow> set A = set B"
  using assms unfolding distinct_map
  by (metis List.finite_set card_subset_eq distinct_card order_refl)

lemma valid_dict_distinct:
  assumes "\<forall>x \<in> fst ` set kvs. \<forall>y \<in> fst ` set kvs. hv_eq x y \<longleftrightarrow> canon x = canon y"
    and "all_new hv_eq [] kvs"
  shows "distinct (map (canon \<circ> fst) kvs)"
  using all_new_distinct [of kvs "[]" hv_eq canon] assms by auto

lemma hv_eq_dict:
  assumes eq: "\<And>x y. x \<in> S \<Longrightarrow> y \<in> S \<Longrightarrow> hv_eq x y \<longleftrightarrow> canon x = canon y"
    and S: "\<And>k v. (k, v) \<in> set a \<union> set b \<Longrightarrow> k \<in> S \<and> v \<in> S"
    and na: "all_new hv_eq [] a" and nb: "all_new hv_eq [] b"
  shows "hv_eq (HDict a) (HDict b) \<longleftrightarrow> canon (HDict a) = canon (HDict b)"
proof -
  have "fst ` set a \<subseteq> S" "fst ` set b \<subseteq> S" using S by force+
  then have da: "distinct (map (canon \<circ> fst) a)" and db: "distinct (map (canon \<circ> fst) b)"
    by (intro valid_dict_distinct ballI eq na nb; blast)+
  have "(case find (\<lambda>(k', u). hv_eq k k') a of None \<Rightarrow> False | Some (k', u) \<Rightarrow> hv_eq u v)
      \<longleftrightarrow> (canon k, canon v) \<in> canon_pair ` set a" if "(k, v) \<in> set b" for k v
  proof -
    have k: "k \<in> S" "v \<in> S" using that S by auto
    have "find (\<lambda>(k', u). hv_eq k k') a = find (\<lambda>(k', u). canon k = canon k') a"
      using eq k S by (intro find_cong refl) auto
    moreover have "hv_eq u v \<longleftrightarrow> canon u = canon v"
      if "find (\<lambda>(k', u). canon k = canon k') a = Some (k', u)" for k' u
      using find_in [OF that] eq k S by auto
    ultimately have "(case find (\<lambda>(k', u). hv_eq k k') a of None \<Rightarrow> False | Some (k', u) \<Rightarrow> hv_eq u v)
        \<longleftrightarrow> (case find (\<lambda>(k', u). canon k = canon k') a of None \<Rightarrow> False | Some (k', u) \<Rightarrow> canon u = canon v)"
      by (simp split: option.split prod.split)
    then show ?thesis by (simp add: find_by_canon [OF da])
  qed
  then have "list_all (\<lambda>(k, v). case find (\<lambda>(k', u). hv_eq k k') a of
        None \<Rightarrow> False | Some (k', u) \<Rightarrow> hv_eq u v) b
      \<longleftrightarrow> (\<forall>x \<in> set b. canon_pair x \<in> canon_pair ` set a)"
    by (fastforce simp: list_all_iff)
  then have "hv_eq (HDict a) (HDict b) \<longleftrightarrow>
      length (map canon_pair a) = length (map canon_pair b)
      \<and> set (map canon_pair b) \<subseteq> set (map canon_pair a)"
    using na by (simp add: image_subset_iff)
  also have "\<dots> \<longleftrightarrow> set (map canon_pair a) = set (map canon_pair b)"
    using da db by (intro dict_sets) (simp_all add: comp_def case_prod_beta)
  also have "\<dots> \<longleftrightarrow> canon (HDict a) = canon (HDict b)"
    by (simp add: fset_of_list_eq del: set_map fset_of_list_map)
  finally show ?thesis .
qed

lemma dict_parts:
  assumes "x \<in> fst ` set kvs \<union> snd ` set kvs"
  shows "size x < size (HDict kvs)" and "valid_key (HDict kvs) \<Longrightarrow> valid_key x"
proof -
  from assms obtain k v where kv: "(k, v) \<in> set kvs" "x = k \<or> x = v" by auto
  then show "size x < size (HDict kvs)" using size_key [OF kv(1)] by auto
  show "valid_key (HDict kvs) \<Longrightarrow> valid_key x" using kv by fastforce
qed

lemma hv_eq_canon: "valid_key a \<Longrightarrow> valid_key b \<Longrightarrow> hv_eq a b \<longleftrightarrow> canon a = canon b"
proof (induction "max (size a) (size b)" arbitrary: a b rule: less_induct)
  case less
  show ?case
  proof (cases "\<exists>x y. a = HDict x \<and> b = HDict y")
    case True
    then obtain x y where ab: "a = HDict x" "b = HDict y" by blast
    let ?S = "{p. size p < max (size a) (size b) \<and> valid_key p}"
    have "hv_eq p q \<longleftrightarrow> canon p = canon q" if "p \<in> ?S" "q \<in> ?S" for p q
      using that less.hyps [of p q] by simp
    moreover have "k \<in> ?S \<and> v \<in> ?S" if "(k, v) \<in> set x \<union> set y" for k v
      using that less.prems size_key [of k v x] size_key [of k v y] unfolding ab by fastforce
    ultimately show ?thesis using hv_eq_dict [of ?S x y] less.prems unfolding ab by simp
  next
    case False
    show ?thesis
    proof (cases "\<exists>d i p d' i' q. a = HVariant d i (Some p) \<and> b = HVariant d' i' (Some q)")
      case True
      then obtain d i p d' i' q where ab: "a = HVariant d i (Some p)" "b = HVariant d' i' (Some q)" by blast
      have "hv_eq p q \<longleftrightarrow> canon p = canon q"
        using less.prems ab by (intro less.hyps) auto
      then show ?thesis using ab by simp
    next
      case not: False
      show ?thesis
        using False not by (cases a; cases b) (auto split: option.splits)
    qed
  qed
qed

lemma valid_dict_keys: "valid_key (HDict kvs) \<Longrightarrow> distinct (map (canon \<circ> fst) kvs)"
proof (rule valid_dict_distinct)
  assume v: "valid_key (HDict kvs)"
  show "\<forall>x \<in> fst ` set kvs. \<forall>y \<in> fst ` set kvs. hv_eq x y \<longleftrightarrow> canon x = canon y"
  proof (intro ballI)
    fix x y assume "x \<in> fst ` set kvs" "y \<in> fst ` set kvs"
    then have "valid_key x" "valid_key y" using dict_parts(2) [OF _ v] by blast+
    then show "hv_eq x y \<longleftrightarrow> canon x = canon y" by (rule hv_eq_canon)
  qed
qed simp

section \<open>Hashing\<close>

text \<open>Two lists of pairs with the same canonical pairs have the same sum.\<close>

lemma sum_by_canon:
  fixes g :: "'a \<Rightarrow> 'b :: comm_monoid_add"
  assumes "distinct (map c xs)" "distinct (map c ys)" "c ` set xs = c ` set ys"
    and "\<And>x y. x \<in> set xs \<Longrightarrow> y \<in> set ys \<Longrightarrow> c x = c y \<Longrightarrow> g x = g y"
  shows "sum_list (map g xs) = sum_list (map g ys)"
proof -
  define G where "G = (\<lambda>z. g (SOME x. x \<in> set xs \<and> c x = z))"
  have G: "G (c x) = g x" if "x \<in> set xs" for x
  proof -
    have "x = (SOME y. y \<in> set xs \<and> c y = c x)"
      using that assms(1) by (intro some_equality [symmetric]) (auto simp: distinct_map inj_on_def)
    then show ?thesis by (simp add: G_def)
  qed
  have Gy: "G (c y) = g y" if y: "y \<in> set ys" for y
  proof -
    from y assms(3) obtain x where "x \<in> set xs" "c x = c y" by (metis imageE imageI)
    with G assms(4) y show ?thesis by metis
  qed
  have "sum_list (map g xs) = sum_list (map G (map c xs))" using G by (simp cong: map_cong)
  also have "\<dots> = sum G (set (map c xs))" using assms(1) by (simp only: sum_list_distinct_conv_sum_set)
  also have "\<dots> = sum G (set (map c ys))" using assms(3) by simp
  also have "\<dots> = sum_list (map G (map c ys))" using assms(2) by (simp only: sum_list_distinct_conv_sum_set)
  also have "\<dots> = sum_list (map g ys)" using Gy by (simp cong: map_cong)
  finally show ?thesis .
qed

lemma foldl_plus: "foldl (\<lambda>s (k, v). s + f k v) (z :: u64) kvs = z + sum_list (map (\<lambda>(k, v). f k v) kvs)"
  by (induction kvs arbitrary: z) (auto simp: add.assoc)

lemma hv_hash_canon:
  "valid_key a \<Longrightarrow> valid_key b \<Longrightarrow> canon a = canon b \<Longrightarrow> hv_hash fin a = hv_hash fin b"
proof (induction a arbitrary: b)
  case (HDict kvs)
  then obtain lws where b: "b = HDict lws" by (cases b) auto
  let ?g = "\<lambda>(k, v). splitmix64 (fin (hv_hash fin k) + fin (hv_hash fin v))"
  have d: "distinct (map (canon \<circ> fst) kvs)" "distinct (map (canon \<circ> fst) lws)"
    using HDict.prems valid_dict_keys unfolding b by simp_all
  have "sum_list (map ?g kvs) = sum_list (map ?g lws)"
  proof (rule sum_by_canon [of canon_pair])
    show "distinct (map canon_pair kvs)" "distinct (map canon_pair lws)"
      using d by (intro distinct_pairs; simp)+
    show "canon_pair ` set kvs = canon_pair ` set lws"
      using HDict.prems(3) fset_of_list_eq [of "map canon_pair kvs" "map canon_pair lws"]
      unfolding b by (simp del: fset_of_list_map)
    fix x y assume xy: "x \<in> set kvs" "y \<in> set lws" "canon_pair x = canon_pair y"
    obtain k v k' v' where e: "x = (k, v)" "y = (k', v')" by (cases x; cases y)
    have "valid_key k" "valid_key v" "valid_key k'" "valid_key v'"
      using HDict.prems xy unfolding b e by auto
    moreover have "canon k = canon k'" "canon v = canon v'" using xy(3) e by simp_all
    moreover have "k \<in> Basic_BNFs.fsts x" "v \<in> Basic_BNFs.snds x" using e by auto
    ultimately show "?g x = ?g y"
      using HDict.IH [OF xy(1), of k k'] HDict.IH [OF xy(1), of v v'] e by simp
  qed
  then show ?case unfolding b by (simp add: foldl_plus)
next
  case (HVariant d i p)
  then obtain q where b: "b = HVariant d i q" "map_option canon p = map_option canon q"
    by (cases b) simp_all
  show ?case
  proof (cases p)
    case None
    with b show ?thesis by simp
  next
    case (Some x)
    with b obtain y where y: "q = Some y" "canon x = canon y" by (cases q) simp_all
    have "hv_hash fin x = hv_hash fin y"
      using HVariant.IH [of x y] HVariant.prems(1,2) Some y b by simp
    with b Some y show ?thesis by simp
  qed
next
  case (HInt n)
  then show ?case by (cases b) simp_all
next
  case (HStr x)
  then show ?case by (cases b) simp_all
next
  case (HFloat x)
  then show ?case by (cases b) simp_all
qed

section \<open>The laws\<close>

interpretation hv_key: hashed_key valid_key hv_eq "hv_hash fin"
proof unfold_locales
  fix a b c
  show "valid_key a \<Longrightarrow> hv_eq a a" using hv_eq_canon by blast
  show "valid_key a \<Longrightarrow> valid_key b \<Longrightarrow> hv_eq a b \<Longrightarrow> hv_eq b a" using hv_eq_canon by metis
  show "valid_key a \<Longrightarrow> valid_key b \<Longrightarrow> valid_key c \<Longrightarrow> hv_eq a b \<Longrightarrow> hv_eq b c \<Longrightarrow> hv_eq a c"
    using hv_eq_canon by metis
  show "valid_key a \<Longrightarrow> valid_key b \<Longrightarrow> hv_eq a b \<Longrightarrow> hv_hash fin a = hv_hash fin b"
    using hv_eq_canon hv_hash_canon by blast
qed

text \<open>Two orders of the same two entries, used as a concrete pair of equal keys.\<close>

definition demo_key :: "hashable_value \<Rightarrow> hashable_value \<Rightarrow> hashable_value" where
  "demo_key v w = HDict [(HInt 1, v), (HStr (us ''a''), w)]"

definition demo_key_swapped :: "hashable_value \<Rightarrow> hashable_value \<Rightarrow> hashable_value" where
  "demo_key_swapped v w = HDict [(HStr (us ''a''), w), (HInt 1, v)]"

lemma demo_keys:
  "valid_key (demo_key (HInt 5) (HFloat 0))" "valid_key (demo_key_swapped (HInt 5) (HFloat 0))"
  "hv_eq (demo_key (HInt 5) (HFloat 0)) (demo_key_swapped (HInt 5) (HFloat 0))"
  by (simp_all add: demo_key_def demo_key_swapped_def)

text \<open>C33: On keys without duplicate entries the equality is an equivalence relation.\<close>

theorem hv_eq_equivalence:
  assumes "valid_key a" "valid_key b" "valid_key c"
  shows "hv_eq a a \<and> (hv_eq a b \<longleftrightarrow> hv_eq b a) \<and> (hv_eq a b \<and> hv_eq b c \<longrightarrow> hv_eq a c)"
  using assms hv_key.eq_refl hv_key.eq_sym hv_key.eq_trans by blast

theorem hv_eq_equivalence_witness:
  "hv_eq (demo_key_swapped (HInt 5) (HFloat 0)) (demo_key (HInt 5) (HFloat 0))"
  using hv_eq_equivalence [OF demo_keys(1,2,1)] demo_keys(3) by blast





text \<open>
  With a duplicate key the contract breaks: duplicates are looked for in the left operand
  only, so equality is not symmetric, and a value with a duplicate key does not equal itself.
\<close>

lemma hv_eq_duplicates:
  "hv_eq (HDict [(HInt 1, HInt 0), (HInt 2, HInt 0)]) (HDict [(HInt 1, HInt 0), (HInt 1, HInt 0)])
   \<and> \<not> hv_eq (HDict [(HInt 1, HInt 0), (HInt 1, HInt 0)]) (HDict [(HInt 1, HInt 0), (HInt 2, HInt 0)])
   \<and> \<not> hv_eq (HDict [(HInt 1, HInt 0), (HInt 1, HInt 0)]) (HDict [(HInt 1, HInt 0), (HInt 1, HInt 0)])"
  by simp

section \<open>The mixer\<close>

text \<open>A right shift folded into a word is undone by folding in the multiples of the shift.\<close>

lemma xorshift_inverse:
  fixes x :: u64
  assumes "64 \<le> 3 * s"
  shows "(let y = x XOR drop_bit s x in y XOR drop_bit s y XOR drop_bit (2 * s) y) = x"
proof (rule bit_word_eqI)
  fix n assume n: "n < LENGTH(64)"
  have far: "\<not> bit x (n + s + 2 * s)"
    using assms bit_imp_le_length [of x "n + s + 2 * s"] by auto
  have e: "s + (s + n) = n + 2 * s" "s + (2 * s + n) = n + s + 2 * s" "2 * s + (s + n) = n + s + 2 * s"
    by simp_all
  have d: "n + (s + s) = n + s * 2" by simp
  show "bit (let y = x XOR drop_bit s x in y XOR drop_bit s y XOR drop_bit (2 * s) y) n = bit x n"
    using far by (auto simp: Let_def bit_simps e ac_simps d)
qed

lemma xorshift_inj: "64 \<le> 3 * s \<Longrightarrow> x XOR drop_bit s x = y XOR drop_bit s y \<Longrightarrow> x = (y :: u64)"
  using xorshift_inverse [of s x] xorshift_inverse [of s y] by (metis Let_def)

lemma odd_mult_inj: "c * d = (1 :: u64) \<Longrightarrow> x * c = y * c \<Longrightarrow> x = y"
proof -
  assume c: "c * d = 1" and eq: "x * c = y * c"
  have "z = z * c * d" for z using c by (simp add: mult.assoc)
  from this [of x] this [of y] eq show ?thesis by (simp only:)
qed

text \<open>The mixer is a bijection of the 64-bit words: distinct inputs never collide.\<close>

theorem splitmix64_bij: "bij splitmix64"
proof -
  have "x = y" if "splitmix64 x = splitmix64 y" for x y
  proof -
    have c: "(0xbf58476d1ce4e5b9 :: u64) * 0x96de1b173f119089 = 1"
      "(0x94d049bb133111eb :: u64) * 0x319642b2d24d8ec3 = 1" by simp_all
    define m where "m = (\<lambda>x :: u64. (x + 0x9e3779b97f4a7c15) XOR drop_bit 30 (x + 0x9e3779b97f4a7c15))"
    define l where "l = (\<lambda>x. m x * 0xbf58476d1ce4e5b9 XOR drop_bit 27 (m x * 0xbf58476d1ce4e5b9))"
    have sm: "splitmix64 z = l z * 0x94d049bb133111eb XOR drop_bit 31 (l z * 0x94d049bb133111eb)" for z
      by (simp only: splitmix64_def Let_def l_def m_def)
    have "l x * 0x94d049bb133111eb = l y * 0x94d049bb133111eb"
      using that unfolding sm by (rule xorshift_inj [rotated]) simp
    then have "l x = l y" by (rule odd_mult_inj [OF c(2)])
    then have "m x * 0xbf58476d1ce4e5b9 = m y * 0xbf58476d1ce4e5b9"
      unfolding l_def by (rule xorshift_inj [rotated]) simp
    then have "m x = m y" by (rule odd_mult_inj [OF c(1)])
    then have "x + 0x9e3779b97f4a7c15 = y + 0x9e3779b97f4a7c15"
      unfolding m_def by (rule xorshift_inj [rotated]) simp
    then show ?thesis by simp
  qed
  then have "inj splitmix64" by (rule injI)
  then show ?thesis by (simp add: bij_def finite_UNIV_inj_surj)
qed

end
