(* ===== verification/Builder.thy ===== *)
theory Builder
  imports Key_Laws
begin

text \<open>
  Two small stateful types of \<^verbatim>\<open>src/value.rs\<close>: the permissions \<open>DirPerms\<close> and the
  dictionary \<open>Builder\<close> with its two-level freezing (an atomic flag read before the mutex is
  taken, and the map that \<open>finish\<close> takes out). Every method is one definition; the methods
  that lock are split at the lock, because another thread can run between the test of the
  flag and the locked part. The \<open>IndexMap\<close> with \<open>HashableValue\<close> keys is the crate's: its
  operations are an argument and the locale \<open>keyed_map\<close> states their contract.
\<close>

section \<open>Directory permissions\<close>

record dir_perms =
  readable :: bool
  statable :: bool
  listable :: bool
  writable :: bool
  appendable :: bool
  deletable :: bool
  renameable :: bool
  symlinkable :: bool
  posix_permissions :: bool
  extended_attributes :: bool

definition perms_full :: dir_perms where
  "perms_full = \<lparr>readable = True, statable = True, listable = True, writable = True,
     appendable = True, deletable = True, renameable = True, symlinkable = True,
     posix_permissions = True, extended_attributes = True\<rparr>"

definition perms_read_only :: dir_perms where
  "perms_read_only = \<lparr>readable = True, statable = True, listable = True, writable = False,
     appendable = False, deletable = False, renameable = False, symlinkable = False,
     posix_permissions = False, extended_attributes = False\<rparr>"

definition perms_from_letter :: "uchar \<Rightarrow> dir_perms option" where
  "perms_from_letter c =
     (if c = uc CHR ''r'' then Some \<lparr>readable = True, statable = True, listable = True,
        writable = False, appendable = False, deletable = False, renameable = False,
        symlinkable = False, posix_permissions = False, extended_attributes = False\<rparr>
      else if c = uc CHR ''w'' then Some \<lparr>readable = False, statable = False, listable = False,
        writable = True, appendable = True, deletable = True, renameable = True,
        symlinkable = False, posix_permissions = False, extended_attributes = False\<rparr>
      else if c = uc CHR ''a'' then Some \<lparr>readable = False, statable = False, listable = False,
        writable = False, appendable = True, deletable = False, renameable = False,
        symlinkable = False, posix_permissions = False, extended_attributes = False\<rparr>
      else if c = uc CHR ''s'' then Some \<lparr>readable = False, statable = True, listable = False,
        writable = False, appendable = False, deletable = False, renameable = False,
        symlinkable = False, posix_permissions = False, extended_attributes = False\<rparr>
      else if c = uc CHR ''l'' then Some \<lparr>readable = False, statable = True, listable = True,
        writable = False, appendable = False, deletable = False, renameable = False,
        symlinkable = False, posix_permissions = False, extended_attributes = False\<rparr>
      else if c = uc CHR ''y'' then Some \<lparr>readable = False, statable = False, listable = False,
        writable = False, appendable = False, deletable = False, renameable = False,
        symlinkable = True, posix_permissions = False, extended_attributes = False\<rparr>
      else None)"

definition perms_union :: "dir_perms \<Rightarrow> dir_perms \<Rightarrow> dir_perms" where
  "perms_union p q =
     \<lparr>readable = readable p \<or> readable q, statable = statable p \<or> statable q,
      listable = listable p \<or> listable q, writable = writable p \<or> writable q,
      appendable = appendable p \<or> appendable q, deletable = deletable p \<or> deletable q,
      renameable = renameable p \<or> renameable q, symlinkable = symlinkable p \<or> symlinkable q,
      posix_permissions = posix_permissions p \<or> posix_permissions q,
      extended_attributes = extended_attributes p \<or> extended_attributes q\<rparr>"

text \<open>The union of the permissions of a string of letters, as a capability flag gives it.\<close>

definition perms_none :: dir_perms where
  "perms_none = \<lparr>readable = False, statable = False, listable = False, writable = False,
     appendable = False, deletable = False, renameable = False, symlinkable = False,
     posix_permissions = False, extended_attributes = False\<rparr>"

interpretation perms: semilattice_neutr perms_union perms_none
  by unfold_locales (auto simp: perms_union_def perms_none_def)

abbreviation perms_le :: "dir_perms \<Rightarrow> dir_perms \<Rightarrow> bool" where
  "perms_le p q \<equiv> perms_union p q = q"

text \<open>
  Permissions compose additively: the union is the least permission set above both, it
  starts from nothing, and no letters ever grant POSIX permissions or extended attributes.
\<close>

theorem perms_union_least:
  "perms_le p (perms_union p q) \<and> perms_le q (perms_union p q)
   \<and> (perms_le p r \<and> perms_le q r \<longrightarrow> perms_le (perms_union p q) r)
   \<and> perms_le p perms_full \<and> perms_from_letter (uc CHR ''r'') = Some perms_read_only
   \<and> (perms_from_letter c = Some l \<longrightarrow> \<not> posix_permissions l \<and> \<not> extended_attributes l)"
proof -
  have "perms_le p perms_full" by (simp add: perms_union_def perms_full_def)
  moreover have "perms_from_letter c = Some l \<Longrightarrow> \<not> posix_permissions l \<and> \<not> extended_attributes l"
    by (auto simp: perms_from_letter_def split: if_splits)
  moreover have "perms_from_letter (uc CHR ''r'') = Some perms_read_only"
    by (simp add: perms_from_letter_def perms_read_only_def)
  ultimately show ?thesis using perms.left_idem perms.assoc perms.commute by metis
qed

section \<open>Maps with hashed keys\<close>

record ('v, 'm) dict_api =
  dm_new :: 'm
  dm_insert :: "hashable_value \<Rightarrow> 'v \<Rightarrow> 'm \<Rightarrow> 'm"
  dm_shift_remove :: "hashable_value \<Rightarrow> 'm \<Rightarrow> 'm"
  dm_contains_key :: "'m \<Rightarrow> hashable_value \<Rightarrow> bool"
  dm_get :: "'m \<Rightarrow> hashable_value \<Rightarrow> 'v option"

locale keyed_map =
  fixes api :: "('v, 'm) dict_api"
  assumes get_new: "dm_get api (dm_new api) k = None"
    and get_insert: "valid_key k \<Longrightarrow> valid_key j \<Longrightarrow>
      dm_get api (dm_insert api k v m) j = (if hv_eq k j then Some v else dm_get api m j)"
    and get_remove: "valid_key k \<Longrightarrow> valid_key j \<Longrightarrow>
      dm_get api (dm_shift_remove api k m) j = (if hv_eq k j then None else dm_get api m j)"
    and contains_get: "dm_contains_key api m k \<longleftrightarrow> dm_get api m k \<noteq> None"
begin

lemma get_equal_keys:
  assumes "valid_key k" "valid_key j" "hv_eq k j"
  shows "dm_get api (dm_insert api k v m) j = Some v" and "dm_get api (dm_shift_remove api k m) j = None"
  using assms by (simp_all add: get_insert get_remove)

lemma insert_twice:
  assumes "valid_key k" "valid_key j"
  shows "dm_get api (dm_insert api k v (dm_insert api k w m)) j = dm_get api (dm_insert api k v m) j"
  using assms by (simp add: get_insert)

end

text \<open>Maps from canonical keys satisfy the contract.\<close>

definition canon_map_api :: "('v, canonical \<rightharpoonup> 'v) dict_api" where
  "canon_map_api =
     \<lparr>dm_new = (\<lambda>_. None), dm_insert = \<lambda>k v m. m(canon k \<mapsto> v),
      dm_shift_remove = \<lambda>k m. m(canon k := None), dm_contains_key = \<lambda>m k. m (canon k) \<noteq> None,
      dm_get = \<lambda>m k. m (canon k)\<rparr>"

abbreviation nat_map_api :: "(nat, canonical \<rightharpoonup> nat) dict_api" where
  "nat_map_api \<equiv> canon_map_api"

interpretation canon_map: keyed_map canon_map_api
  by unfold_locales (auto simp: canon_map_api_def hv_eq_canon)

section \<open>The builder\<close>

record 'm builder =
  bd_frozen :: bool
  bd_inner :: "'m option"

datatype builder_error = AlreadyFinished | AlreadyFrozen | IsFrozen

definition builder_new :: "('v, 'm) dict_api \<Rightarrow> 'm builder" where
  "builder_new api = \<lparr>bd_frozen = False, bd_inner = Some (dm_new api)\<rparr>"

definition is_frozen :: "'m builder \<Rightarrow> bool" where
  "is_frozen b = bd_frozen b"

definition set_locked ::
  "('v, 'm) dict_api \<Rightarrow> hashable_value \<Rightarrow> 'v \<Rightarrow> 'm builder \<Rightarrow> 'm builder \<times> (builder_error + unit)" where
  "set_locked api key val b =
     (case bd_inner b of
        Some m \<Rightarrow> (b\<lparr>bd_inner := Some (dm_insert api key val m)\<rparr>, Inr ())
      | None \<Rightarrow> (b, Inl AlreadyFinished))"

definition builder_set ::
  "('v, 'm) dict_api \<Rightarrow> hashable_value \<Rightarrow> 'v \<Rightarrow> 'm builder \<Rightarrow> 'm builder \<times> (builder_error + unit)" where
  "builder_set api key val b =
     (if bd_frozen b then (b, Inl AlreadyFinished) else set_locked api key val b)"

definition delete_locked ::
  "('v, 'm) dict_api \<Rightarrow> hashable_value \<Rightarrow> 'm builder \<Rightarrow> 'm builder \<times> (builder_error + unit)" where
  "delete_locked api key b =
     (case bd_inner b of
        Some m \<Rightarrow> (b\<lparr>bd_inner := Some (dm_shift_remove api key m)\<rparr>, Inr ())
      | None \<Rightarrow> (b, Inl AlreadyFinished))"

definition builder_delete ::
  "('v, 'm) dict_api \<Rightarrow> hashable_value \<Rightarrow> 'm builder \<Rightarrow> 'm builder \<times> (builder_error + unit)" where
  "builder_delete api key b =
     (if bd_frozen b then (b, Inl AlreadyFinished) else delete_locked api key b)"

definition builder_has :: "('v, 'm) dict_api \<Rightarrow> hashable_value \<Rightarrow> 'm builder \<Rightarrow> bool" where
  "builder_has api key b =
     (if bd_frozen b then False
      else case bd_inner b of None \<Rightarrow> False | Some m \<Rightarrow> dm_contains_key api m key)"

definition builder_get :: "('v, 'm) dict_api \<Rightarrow> hashable_value \<Rightarrow> 'm builder \<Rightarrow> 'v option" where
  "builder_get api key b =
     (if bd_frozen b then None
      else case bd_inner b of None \<Rightarrow> None | Some m \<Rightarrow> dm_get api m key)"

definition get_or_locked ::
  "('v, 'm) dict_api \<Rightarrow> hashable_value \<Rightarrow> 'v \<Rightarrow> 'm builder \<Rightarrow> 'm builder \<times> (builder_error + 'v)" where
  "get_or_locked api key default_thunk b =
     (case bd_inner b of
        Some m \<Rightarrow>
          (case dm_get api m key of
             Some existing \<Rightarrow> (b, Inr existing)
           | None \<Rightarrow> (b\<lparr>bd_inner := Some (dm_insert api key default_thunk m)\<rparr>, Inr default_thunk))
      | None \<Rightarrow> (b, Inl AlreadyFinished))"

definition builder_get_or ::
  "('v, 'm) dict_api \<Rightarrow> hashable_value \<Rightarrow> 'v \<Rightarrow> 'm builder \<Rightarrow> 'm builder \<times> (builder_error + 'v)" where
  "builder_get_or api key default_thunk b =
     (if bd_frozen b then (b, Inl AlreadyFinished) else get_or_locked api key default_thunk b)"

definition builder_freeze :: "'m builder \<Rightarrow> 'm builder \<times> (builder_error + unit)" where
  "builder_freeze b =
     (b\<lparr>bd_frozen := True\<rparr>, if bd_frozen b then Inl AlreadyFrozen else Inr ())"

definition finish_locked :: "'m builder \<Rightarrow> 'm builder \<times> (builder_error + 'm)" where
  "finish_locked b =
     (b\<lparr>bd_inner := None\<rparr>, case bd_inner b of Some m \<Rightarrow> Inr m | None \<Rightarrow> Inl AlreadyFrozen)"

definition builder_finish :: "'m builder \<Rightarrow> 'm builder \<times> (builder_error + 'm)" where
  "builder_finish b =
     (if bd_frozen b then (b\<lparr>bd_frozen := True\<rparr>, Inl AlreadyFrozen)
      else finish_locked (b\<lparr>bd_frozen := True\<rparr>))"

definition snapshot_locked :: "'m builder \<Rightarrow> builder_error + 'm" where
  "snapshot_locked b = (case bd_inner b of Some m \<Rightarrow> Inr m | None \<Rightarrow> Inl IsFrozen)"

definition builder_snapshot :: "'m builder \<Rightarrow> builder_error + 'm" where
  "builder_snapshot b = (if bd_frozen b then Inl IsFrozen else snapshot_locked b)"

definition builder_clone :: "'m builder \<Rightarrow> 'm builder" where
  "builder_clone b = \<lparr>bd_frozen = bd_frozen b, bd_inner = bd_inner b\<rparr>"

section \<open>One thread\<close>



text \<open>
  C33: \<open>get_or\<close> on an open builder answers with the value that is there, or stores the default
  and answers with it; either way the answer is what every equal key finds afterwards, and
  keys that are not equal find what they found before.
\<close>

theorem get_or_stores:
  assumes "keyed_map api" and "\<not> bd_frozen b" and "bd_inner b \<noteq> None"
    and "valid_key k" and "valid_key j"
  shows "\<exists>b' r. builder_get_or api k d b = (b', Inr r)
    \<and> r = (case builder_get api k b of Some v \<Rightarrow> v | None \<Rightarrow> d)
    \<and> builder_get api k b' = Some r
    \<and> (\<not> hv_eq k j \<longrightarrow> builder_get api j b' = builder_get api j b)"
proof -
  obtain m where m: "bd_inner b = Some m" using assms(3) by auto
  show ?thesis
  proof (cases "dm_get api m k")
    case None
    with assms m hv_key.eq_refl [OF assms(4)] show ?thesis
      by (auto simp: builder_get_or_def get_or_locked_def builder_get_def keyed_map.get_insert)
  next
    case (Some v)
    with assms m show ?thesis
      by (auto simp: builder_get_or_def get_or_locked_def builder_get_def)
  qed
qed

theorem get_or_stores_witness:
  "\<exists>b' r. builder_get_or nat_map_api (HInt 1) 7 (builder_new nat_map_api) = (b', Inr r)
     \<and> builder_get nat_map_api (HInt 1) b' = Some r \<and> r = 7"
proof -
  have "\<not> bd_frozen (builder_new nat_map_api)" "bd_inner (builder_new nat_map_api) \<noteq> None"
    "builder_get nat_map_api (HInt 1) (builder_new nat_map_api) = None"
    by (simp_all add: builder_new_def builder_get_def canon_map.get_new)
  with get_or_stores [OF canon_map.keyed_map_axioms this(1,2), of "HInt 1" "HInt 2" 7] show ?thesis by auto
qed

end
