(* ===== verification/Builder_Steps.thy ===== *)
theory Builder_Steps
  imports Builder
begin

text \<open>
  Threads sharing one \<open>Builder\<close>. A method is at most two atomic steps: the test (or swap)
  of the flag, and the part under the mutex. The step relation interleaves them freely, and
  the log records each answer when it is given. The map that \<open>finish\<close> returns is what the
  acknowledged mutations before it built, and none is acknowledged after it.
\<close>

section \<open>Calls and answers\<close>

datatype 'v call =
    CSet hashable_value 'v
  | CDelete hashable_value
  | CGetOr hashable_value 'v
  | CFreeze
  | CFinish
  | CSnapshot

datatype ('v, 'm) answer = Done | Got 'v | TheMap 'm | Failed builder_error

text \<open>The first step: an answer, or \<open>None\<close> where the call goes on to the lock.\<close>

fun first_step :: "'v call \<Rightarrow> 'm builder \<Rightarrow> 'm builder \<times> ('v, 'm) answer option" where
  "first_step (CSet k v) b = (b, if bd_frozen b then Some (Failed AlreadyFinished) else None)"
| "first_step (CDelete k) b = (b, if bd_frozen b then Some (Failed AlreadyFinished) else None)"
| "first_step (CGetOr k v) b = (b, if bd_frozen b then Some (Failed AlreadyFinished) else None)"
| "first_step CFreeze b =
     (case builder_freeze b of (b', Inl e) \<Rightarrow> (b', Some (Failed e)) | (b', Inr _) \<Rightarrow> (b', Some Done))"
| "first_step CFinish b =
     (b\<lparr>bd_frozen := True\<rparr>, if bd_frozen b then Some (Failed AlreadyFrozen) else None)"
| "first_step CSnapshot b = (b, if bd_frozen b then Some (Failed IsFrozen) else None)"

definition answer_of :: "('a \<Rightarrow> ('v, 'm) answer) \<Rightarrow> builder_error + 'a \<Rightarrow> ('v, 'm) answer" where
  "answer_of f r = (case r of Inl e \<Rightarrow> Failed e | Inr x \<Rightarrow> f x)"

fun locked_step :: "('v, 'm) dict_api \<Rightarrow> 'v call \<Rightarrow> 'm builder \<Rightarrow> 'm builder \<times> ('v, 'm) answer" where
  "locked_step api (CSet k v) b = (let (b', r) = set_locked api k v b in (b', answer_of (\<lambda>_. Done) r))"
| "locked_step api (CDelete k) b = (let (b', r) = delete_locked api k b in (b', answer_of (\<lambda>_. Done) r))"
| "locked_step api (CGetOr k v) b = (let (b', r) = get_or_locked api k v b in (b', answer_of Got r))"
| "locked_step api CFreeze b = (b, Done)"
| "locked_step api CFinish b = (let (b', r) = finish_locked b in (b', answer_of TheMap r))"
| "locked_step api CSnapshot b = (b, answer_of TheMap (snapshot_locked b))"

text \<open>A call alone is its first step followed by its locked step.\<close>

definition whole_call :: "('v, 'm) dict_api \<Rightarrow> 'v call \<Rightarrow> 'm builder \<Rightarrow> 'm builder \<times> ('v, 'm) answer" where
  "whole_call api c b =
     (case first_step c b of (b', Some r) \<Rightarrow> (b', r) | (b', None) \<Rightarrow> locked_step api c b')"

lemma whole_call_methods:
  "whole_call api (CSet k v) b = (let (b', r) = builder_set api k v b in (b', answer_of (\<lambda>_. Done) r))"
  "whole_call api (CDelete k) b = (let (b', r) = builder_delete api k b in (b', answer_of (\<lambda>_. Done) r))"
  "whole_call api (CGetOr k v) b = (let (b', r) = builder_get_or api k v b in (b', answer_of Got r))"
  "whole_call api CFreeze b = (let (b', r) = builder_freeze b in (b', answer_of (\<lambda>_. Done) r))"
  "whole_call api CFinish b = (let (b', r) = builder_finish b in (b', answer_of TheMap r))"
  "whole_call api CSnapshot b = (b, answer_of TheMap (builder_snapshot b))"
  by (simp_all add: whole_call_def builder_set_def builder_delete_def builder_get_or_def
      builder_finish_def builder_snapshot_def builder_freeze_def answer_of_def)

section \<open>Interleavings\<close>

record ('v, 'm) builder_world =
  bw_builder :: "'m builder"
  bw_waiting :: "nat \<rightharpoonup> 'v call"
  bw_log :: "('v call \<times> ('v, 'm) answer) list"

definition bw_init :: "('v, 'm) dict_api \<Rightarrow> ('v, 'm) builder_world" where
  "bw_init api = \<lparr>bw_builder = builder_new api, bw_waiting = (\<lambda>_. None), bw_log = []\<rparr>"

inductive bw_step :: "('v, 'm) dict_api \<Rightarrow> ('v, 'm) builder_world \<Rightarrow> ('v, 'm) builder_world \<Rightarrow> bool"
  for api where
  answer: "bw_waiting w t = None \<Longrightarrow> first_step c (bw_builder w) = (b', Some r) \<Longrightarrow>
    bw_step api w (w\<lparr>bw_builder := b', bw_log := bw_log w @ [(c, r)]\<rparr>)"
| wait: "bw_waiting w t = None \<Longrightarrow> first_step c (bw_builder w) = (b', None) \<Longrightarrow>
    bw_step api w (w\<lparr>bw_builder := b', bw_waiting := (bw_waiting w)(t \<mapsto> c)\<rparr>)"
| lock: "bw_waiting w t = Some c \<Longrightarrow> locked_step api c (bw_builder w) = (b', r) \<Longrightarrow>
    bw_step api w (w\<lparr>bw_builder := b', bw_waiting := (bw_waiting w)(t := None),
      bw_log := bw_log w @ [(c, r)]\<rparr>)"

inductive bw_reach :: "('v, 'm) dict_api \<Rightarrow> ('v, 'm) builder_world \<Rightarrow> bool" for api where
  init: "bw_reach api (bw_init api)"
| step: "bw_reach api w \<Longrightarrow> bw_step api w w' \<Longrightarrow> bw_reach api w'"

section \<open>Replaying the log\<close>

text \<open>What an acknowledged call does to the map; \<open>None\<close> is the map taken away.\<close>

fun replay1 :: "('v, 'm) dict_api \<Rightarrow> 'm option \<Rightarrow> 'v call \<times> ('v, 'm) answer \<Rightarrow> 'm option" where
  "replay1 api None _ = None"
| "replay1 api (Some m) (CSet k v, Done) = Some (dm_insert api k v m)"
| "replay1 api (Some m) (CDelete k, Done) = Some (dm_shift_remove api k m)"
| "replay1 api (Some m) (CGetOr k v, Got _) =
     (case dm_get api m k of Some _ \<Rightarrow> Some m | None \<Rightarrow> Some (dm_insert api k v m))"
| "replay1 api (Some m) (CFinish, TheMap _) = None"
| "replay1 api (Some m) _ = Some m"

definition replay :: "('v, 'm) dict_api \<Rightarrow> ('v call \<times> ('v, 'm) answer) list \<Rightarrow> 'm option" where
  "replay api log = foldl (replay1 api) (Some (dm_new api)) log"

text \<open>The answers the map gives: those of the acknowledged calls, in the order of the log.\<close>

fun answer_ok :: "('v, 'm) dict_api \<Rightarrow> 'm option \<Rightarrow> 'v call \<times> ('v, 'm) answer \<Rightarrow> bool" where
  "answer_ok api inner (c, Failed _) = True"
| "answer_ok api None (CFreeze, Done) = True"
| "answer_ok api None _ = False"
| "answer_ok api (Some m) (CGetOr k v, Got x) = (x = (case dm_get api m k of Some y \<Rightarrow> y | None \<Rightarrow> v))"
| "answer_ok api (Some m) (CFinish, TheMap n) = (n = m)"
| "answer_ok api (Some m) (CSnapshot, TheMap n) = (n = m)"
| "answer_ok api (Some m) (CSet k v, Done) = True"
| "answer_ok api (Some m) (CDelete k, Done) = True"
| "answer_ok api (Some m) (CFreeze, Done) = True"
| "answer_ok api (Some m) _ = False"

definition log_ok :: "('v, 'm) dict_api \<Rightarrow> ('v call \<times> ('v, 'm) answer) list \<Rightarrow> bool" where
  "log_ok api log \<longleftrightarrow> (\<forall>pre x post. log = pre @ x # post \<longrightarrow> answer_ok api (replay api pre) x)"

lemma replay_snoc [simp]: "replay api (log @ [x]) = replay1 api (replay api log) x"
  by (simp add: replay_def)

lemma log_ok_snoc: "log_ok api (log @ [x]) \<longleftrightarrow> log_ok api log \<and> answer_ok api (replay api log) x"
proof
  assume "log_ok api (log @ [x])"
  then show "log_ok api log \<and> answer_ok api (replay api log) x"
    unfolding log_ok_def by (metis append.assoc append_Cons append_Nil)
next
  assume a: "log_ok api log \<and> answer_ok api (replay api log) x"
  show "log_ok api (log @ [x])" unfolding log_ok_def
  proof (intro allI impI)
    fix pre y post assume e: "log @ [x] = pre @ y # post"
    show "answer_ok api (replay api pre) y"
    proof (cases post rule: rev_cases)
      case Nil
      with e a show ?thesis by simp
    next
      case (snoc ys z)
      with e have "log @ [x] = (pre @ y # ys) @ [z]" by simp
      then have "log = pre @ y # ys" by (simp only: append1_eq_conv)
      with a show ?thesis unfolding log_ok_def by blast
    qed
  qed
qed

definition bw_inv :: "('v, 'm) dict_api \<Rightarrow> ('v, 'm) builder_world \<Rightarrow> bool" where
  "bw_inv api w \<longleftrightarrow> bd_inner (bw_builder w) = replay api (bw_log w) \<and> log_ok api (bw_log w)
     \<and> (\<forall>t. bw_waiting w t \<noteq> Some CFreeze)"

lemma first_step_spec:
  "first_step c b = (b', r) \<Longrightarrow> bd_inner b' = bd_inner b \<and> (c = CFreeze \<longrightarrow> r \<noteq> None)
   \<and> (\<forall>x. r = Some x \<longrightarrow> replay1 api i (c, x) = i \<and> answer_ok api i (c, x))"
  by (cases c; cases i) (auto simp: builder_freeze_def split: if_splits)

lemma locked_step_spec:
  "locked_step api c b = (b', r) \<Longrightarrow> c \<noteq> CFreeze \<Longrightarrow>
   bd_inner b' = replay1 api (bd_inner b) (c, r) \<and> answer_ok api (bd_inner b) (c, r)"
  by (cases c; cases "bd_inner b")
    (auto simp: set_locked_def delete_locked_def get_or_locked_def finish_locked_def
      snapshot_locked_def answer_of_def split: option.splits)

lemma bw_step_inv: "bw_step api w w' \<Longrightarrow> bw_inv api w \<Longrightarrow> bw_inv api w'"
proof (induction rule: bw_step.induct)
  case (answer w t c b' r)
  from first_step_spec [OF answer(2), of api "replay api (bw_log w)"] answer(3) show ?case
    by (simp add: bw_inv_def log_ok_snoc)
next
  case (wait w t c b')
  from first_step_spec [OF wait(2), of api "replay api (bw_log w)"] wait(3) show ?case
    by (auto simp: bw_inv_def)
next
  case (lock w t c b' r)
  then have "c \<noteq> CFreeze" by (auto simp: bw_inv_def)
  from locked_step_spec [OF lock(2) this] lock(3) show ?case
    by (auto simp: bw_inv_def log_ok_snoc)
qed

lemma bw_reach_inv: "bw_reach api w \<Longrightarrow> bw_inv api w"
proof (induction rule: bw_reach.induct)
  case init
  show ?case by (simp add: bw_inv_def bw_init_def builder_new_def replay_def log_ok_def)
next
  case (step w w')
  then show ?case using bw_step_inv by blast
qed

lemma replay_taken: "replay api (pre @ (CFinish, TheMap m) # post) = None"
proof (induction post rule: rev_induct)
  case Nil
  show ?case by (cases "replay api pre") simp_all
next
  case (snoc x xs)
  then have "replay api ((pre @ (CFinish, TheMap m) # xs) @ [x]) = None"
    by (simp only: replay_snoc replay1.simps)
  then show ?case by simp
qed

text \<open>
  C34: However the threads interleave, \<open>finish\<close> returns exactly the map that the calls
  acknowledged before it built, and after it no mutation, snapshot or further \<open>finish\<close> is
  acknowledged: no acknowledged write is lost and none slips in behind the result.
\<close>

theorem builder_finish_linearizable:
  assumes "bw_reach api w" and "bw_log w = pre @ (CFinish, TheMap m) # post"
  shows "replay api pre = Some m \<and> (\<forall>(c, r) \<in> set post. (\<exists>e. r = Failed e) \<or> c = CFreeze)"
proof -
  have ok: "log_ok api (bw_log w)" using bw_reach_inv [OF assms(1)] by (simp add: bw_inv_def)
  have "answer_ok api (replay api pre) (CFinish, TheMap m)"
    using ok assms(2) unfolding log_ok_def by blast
  moreover have "(\<exists>e. r = Failed e) \<or> c = CFreeze" if "(c, r) \<in> set post" for c r
  proof -
    from that obtain xs ys where "post = xs @ (c, r) # ys" by (meson split_list)
    with assms(2) have "bw_log w = (pre @ (CFinish, TheMap m) # xs) @ (c, r) # ys" by simp
    with ok have "answer_ok api (replay api (pre @ (CFinish, TheMap m) # xs)) (c, r)"
      unfolding log_ok_def by blast
    then show ?thesis unfolding replay_taken by (cases c; cases r) auto
  qed
  ultimately show ?thesis by (cases "replay api pre") auto
qed

text \<open>One thread stores a value, another finishes between the two steps of a second store.\<close>

definition demo_log :: "(nat call \<times> (nat, canonical \<rightharpoonup> nat) answer) list" where
  "demo_log = [(CSet (HInt 1) 5, Done), (CFinish, TheMap [CInt 1 \<mapsto> 5]),
     (CSet (HInt 2) 6, Failed AlreadyFinished)]"

definition demo_end :: "(nat, canonical \<rightharpoonup> nat) builder_world" where
  "demo_end = \<lparr>bw_builder = \<lparr>bd_frozen = True, bd_inner = None\<rparr>, bw_waiting = (\<lambda>_. None),
     bw_log = demo_log\<rparr>"

lemma demo_reach: "bw_reach nat_map_api demo_end"
proof -
  let ?w0 = "bw_init nat_map_api"
  let ?b0 = "\<lparr>bd_frozen = False, bd_inner = Some (\<lambda>_. None)\<rparr>"
  let ?b1 = "\<lparr>bd_frozen = False, bd_inner = Some [CInt 1 \<mapsto> 5]\<rparr>"
  let ?b2 = "\<lparr>bd_frozen = True, bd_inner = Some [CInt 1 \<mapsto> 5]\<rparr>"
  let ?b3 = "\<lparr>bd_frozen = True, bd_inner = None\<rparr>"
  let ?l1 = "[(CSet (HInt 1) 5, Done)]"
  let ?l2 = "?l1 @ [(CFinish, TheMap [CInt 1 \<mapsto> 5])]"
  note defs = bw_init_def builder_new_def canon_map_api_def set_locked_def finish_locked_def answer_of_def
  have "bw_reach nat_map_api ?w0" by (rule bw_reach.init)
  then have "bw_reach nat_map_api \<lparr>bw_builder = ?b0, bw_waiting = [0 \<mapsto> CSet (HInt 1) 5], bw_log = []\<rparr>"
    by (rule bw_reach.step) (rule bw_step.wait [of _ 0 "CSet (HInt 1) 5" ?b0, THEN back_subst [of "bw_step _ _"]];
      simp add: defs)
  then have "bw_reach nat_map_api \<lparr>bw_builder = ?b1, bw_waiting = (\<lambda>_. None), bw_log = ?l1\<rparr>"
    by (rule bw_reach.step) (rule bw_step.lock [of _ 0 "CSet (HInt 1) 5" _ ?b1 Done, THEN back_subst [of "bw_step _ _"]];
      simp add: defs)
  then have "bw_reach nat_map_api \<lparr>bw_builder = ?b1, bw_waiting = [0 \<mapsto> CSet (HInt 2) 6], bw_log = ?l1\<rparr>"
    by (rule bw_reach.step) (rule bw_step.wait [of _ 0 "CSet (HInt 2) 6" ?b1, THEN back_subst [of "bw_step _ _"]];
      simp add: defs)
  then have "bw_reach nat_map_api \<lparr>bw_builder = ?b2,
      bw_waiting = [0 \<mapsto> CSet (HInt 2) 6, 1 \<mapsto> CFinish], bw_log = ?l1\<rparr>"
    by (rule bw_reach.step) (rule bw_step.wait [of _ 1 CFinish ?b2, THEN back_subst [of "bw_step _ _"]];
      simp add: defs)
  then have "bw_reach nat_map_api \<lparr>bw_builder = ?b3, bw_waiting = [0 \<mapsto> CSet (HInt 2) 6], bw_log = ?l2\<rparr>"
    by (rule bw_reach.step) (rule bw_step.lock [of _ 1 CFinish _ ?b3 "TheMap [CInt 1 \<mapsto> 5]",
      THEN back_subst [of "bw_step _ _"]]; simp add: defs fun_eq_iff)
  then have "bw_reach nat_map_api \<lparr>bw_builder = ?b3, bw_waiting = (\<lambda>_. None),
      bw_log = ?l2 @ [(CSet (HInt 2) 6, Failed AlreadyFinished)]\<rparr>"
    by (rule bw_reach.step) (rule bw_step.lock [of _ 0 "CSet (HInt 2) 6" _ ?b3 "Failed AlreadyFinished",
      THEN back_subst [of "bw_step _ _"]]; simp add: defs)
  then show ?thesis by (simp add: demo_end_def demo_log_def)
qed

theorem builder_finish_linearizable_witness:
  "replay nat_map_api [(CSet (HInt 1) 5, Done)] = Some [CInt 1 \<mapsto> 5]"
  using builder_finish_linearizable [OF demo_reach, of "[(CSet (HInt 1) 5, Done)]" "[CInt 1 \<mapsto> 5]"
      "[(CSet (HInt 2) 6, Failed AlreadyFinished)]"]
  by (simp add: demo_end_def demo_log_def)

section \<open>Freezing under contention\<close>

text \<open>
  \<open>freeze\<close> sets the flag without taking the lock, so a store that has passed the test of the
  flag is still acknowledged after \<open>freeze\<close> has answered.
\<close>

lemma freeze_then_set:
  "\<exists>w. bw_reach nat_map_api w \<and> bw_log w = [(CFreeze, Done), (CSet (HInt 1) 5, Done)]"
proof -
  let ?b0 = "\<lparr>bd_frozen = False, bd_inner = Some (\<lambda>_. None)\<rparr>"
  let ?b1 = "\<lparr>bd_frozen = True, bd_inner = Some (\<lambda>_. None)\<rparr>"
  let ?b2 = "\<lparr>bd_frozen = True, bd_inner = Some [CInt 1 \<mapsto> 5]\<rparr>"
  note defs = bw_init_def builder_new_def canon_map_api_def set_locked_def builder_freeze_def answer_of_def
  have "bw_reach nat_map_api (bw_init nat_map_api)" by (rule bw_reach.init)
  then have "bw_reach nat_map_api \<lparr>bw_builder = ?b0, bw_waiting = [0 \<mapsto> CSet (HInt 1) 5], bw_log = []\<rparr>"
    by (rule bw_reach.step) (rule bw_step.wait [of _ 0 "CSet (HInt 1) 5" ?b0, THEN back_subst [of "bw_step _ _"]];
      simp add: defs)
  then have "bw_reach nat_map_api \<lparr>bw_builder = ?b1, bw_waiting = [0 \<mapsto> CSet (HInt 1) 5], bw_log = [(CFreeze, Done)]\<rparr>"
    by (rule bw_reach.step) (rule bw_step.answer [of _ 1 CFreeze ?b1 Done, THEN back_subst [of "bw_step _ _"]];
      simp add: defs)
  then have "bw_reach nat_map_api \<lparr>bw_builder = ?b2, bw_waiting = (\<lambda>_. None),
      bw_log = [(CFreeze, Done)] @ [(CSet (HInt 1) 5, Done)]\<rparr>"
    by (rule bw_reach.step) (rule bw_step.lock [of _ 0 "CSet (HInt 1) 5" _ ?b2 Done, THEN back_subst [of "bw_step _ _"]];
      simp add: defs)
  then show ?thesis by (intro exI conjI, assumption) simp
qed

end
