(* ===== verification/Diagnostics.thy ===== *)
theory Diagnostics
  imports Lexer
begin

text \<open>
  The diagnostics of \<^verbatim>\<open>src/error.rs\<close>: levels, labels, \<open>Diagnostic\<close> with its builders,
  \<open>DiagnosticResult\<close>, which carries diagnostics along both outcomes, and the renderer with
  its source snippets. A snippet slices no text: the bytes of a line only bound the columns.
\<close>

section \<open>Levels, labels, diagnostics\<close>

datatype diagnostic_level = Info | Warn | Err

definition level_rank :: "diagnostic_level \<Rightarrow> nat" where
  "level_rank l = (case l of Info \<Rightarrow> 0 | Warn \<Rightarrow> 1 | Err \<Rightarrow> 2)"

instantiation diagnostic_level :: linorder
begin

definition less_eq_diagnostic_level :: "diagnostic_level \<Rightarrow> diagnostic_level \<Rightarrow> bool" where
  "less_eq_diagnostic_level a b \<longleftrightarrow> level_rank a \<le> level_rank b"

definition less_diagnostic_level :: "diagnostic_level \<Rightarrow> diagnostic_level \<Rightarrow> bool" where
  "less_diagnostic_level a b \<longleftrightarrow> level_rank a < level_rank b"

instance
  by standard
    (auto simp: less_eq_diagnostic_level_def less_diagnostic_level_def level_rank_def
      split: diagnostic_level.splits)

end

definition level_name :: "diagnostic_level \<Rightarrow> str" where
  "level_name l = (case l of Info \<Rightarrow> us ''info'' | Warn \<Rightarrow> us ''warning'' | Err \<Rightarrow> us ''error'')"

definition bump :: "diagnostic_level \<Rightarrow> diagnostic_level" where
  "bump l = (case l of Info \<Rightarrow> Warn | Warn \<Rightarrow> Err | Err \<Rightarrow> Err)"

datatype arity_bound = Exact nat | Range nat nat

definition arity_display :: "arity_bound \<Rightarrow> str" where
  "arity_display b =
     (case b of
        Exact n \<Rightarrow> if n = 1 then us ''1 argument'' else nat_to_str n @ us '' arguments''
      | Range lo hi \<Rightarrow>
          if lo = hi then
            (if lo = 1 then us ''1 argument'' else nat_to_str lo @ us '' arguments'')
          else nat_to_str lo @ us '' to '' @ nat_to_str hi @ us '' arguments'')"

record span_label =
  sl_span :: span
  sl_message :: str

datatype diagnostic =
  Diagnostic (dg_level: diagnostic_level) (dg_kind: str) (dg_message: str)
    (dg_labels: "span_label list") (dg_notes: "str list") (dg_children: "diagnostic list")

definition diagnostic_with_spans ::
  "diagnostic_level \<Rightarrow> str \<Rightarrow> str \<Rightarrow> span_label list \<Rightarrow> diagnostic" where
  "diagnostic_with_spans level kind message labels = Diagnostic level kind message labels [] []"

definition diagnostic_error :: "str \<Rightarrow> str \<Rightarrow> span \<Rightarrow> diagnostic" where
  "diagnostic_error kind message sp = Diagnostic Err kind message [\<lparr>sl_span = sp, sl_message = []\<rparr>] [] []"

definition diagnostic_warn :: "str \<Rightarrow> str \<Rightarrow> span \<Rightarrow> diagnostic" where
  "diagnostic_warn kind message sp = Diagnostic Warn kind message [\<lparr>sl_span = sp, sl_message = []\<rparr>] [] []"

definition diagnostic_info :: "str \<Rightarrow> str \<Rightarrow> span \<Rightarrow> diagnostic" where
  "diagnostic_info kind message sp = Diagnostic Info kind message [\<lparr>sl_span = sp, sl_message = []\<rparr>] [] []"

fun bump_level :: "diagnostic \<Rightarrow> diagnostic" where
  "bump_level (Diagnostic l k m ls ns cs) = Diagnostic (bump l) k m ls ns cs"

fun with_label :: "span \<Rightarrow> str \<Rightarrow> diagnostic \<Rightarrow> diagnostic" where
  "with_label sp message (Diagnostic l k m ls ns cs) =
     Diagnostic l k m (ls @ [\<lparr>sl_span = sp, sl_message = message\<rparr>]) ns cs"

definition push_label :: "span \<Rightarrow> str \<Rightarrow> diagnostic \<Rightarrow> diagnostic" where
  "push_label = with_label"

fun with_note :: "str \<Rightarrow> diagnostic \<Rightarrow> diagnostic" where
  "with_note note (Diagnostic l k m ls ns cs) = Diagnostic l k m ls (ns @ [note]) cs"

fun with_child :: "diagnostic \<Rightarrow> diagnostic \<Rightarrow> diagnostic" where
  "with_child child (Diagnostic l k m ls ns cs) = Diagnostic l k m ls ns (cs @ [child])"

definition with_materialization_span :: "span \<Rightarrow> diagnostic \<Rightarrow> diagnostic" where
  "with_materialization_span sp d = with_label sp (us ''evaluated here'') d"

definition push_frame :: "str \<Rightarrow> span \<Rightarrow> diagnostic \<Rightarrow> diagnostic" where
  "push_frame label sp d = push_label sp label d"

definition has_type_errors :: "diagnostic list \<Rightarrow> bool" where
  "has_type_errors diags = list_ex (\<lambda>d. dg_level d = Err) diags"

section \<open>Results with diagnostics\<close>

record ('e, 'a) diagnostic_result =
  dr_result :: "'e + 'a"
  dr_diagnostics :: "diagnostic list"

definition dr_ok :: "'a \<Rightarrow> ('e, 'a) diagnostic_result" where
  "dr_ok v = \<lparr>dr_result = Inr v, dr_diagnostics = []\<rparr>"

definition dr_err :: "'e \<Rightarrow> ('e, 'a) diagnostic_result" where
  "dr_err e = \<lparr>dr_result = Inl e, dr_diagnostics = []\<rparr>"

definition with_diagnostics :: "diagnostic list \<Rightarrow> ('e, 'a) diagnostic_result \<Rightarrow> ('e, 'a) diagnostic_result" where
  "with_diagnostics diags r = r\<lparr>dr_diagnostics := dr_diagnostics r @ diags\<rparr>"

text \<open>\<open>take\<close> pushes the diagnostics to the collector and gives the result.\<close>

definition dr_take :: "('e, 'a) diagnostic_result \<Rightarrow> diagnostic list \<Rightarrow> ('e + 'a) \<times> diagnostic list" where
  "dr_take r collector = (dr_result r, collector @ dr_diagnostics r)"

definition into_parts :: "('e, 'a) diagnostic_result \<Rightarrow> ('e + 'a) \<times> diagnostic list" where
  "into_parts r = (dr_result r, dr_diagnostics r)"

definition dr_map_err :: "('e \<Rightarrow> 'f) \<Rightarrow> ('e, 'a) diagnostic_result \<Rightarrow> ('f, 'a) diagnostic_result" where
  "dr_map_err f r =
     \<lparr>dr_result = (case dr_result r of Inl e \<Rightarrow> Inl (f e) | Inr v \<Rightarrow> Inr v),
      dr_diagnostics = dr_diagnostics r\<rparr>"

definition dr_map :: "('a \<Rightarrow> 'b) \<Rightarrow> ('e, 'a) diagnostic_result \<Rightarrow> ('e, 'b) diagnostic_result" where
  "dr_map f r =
     \<lparr>dr_result = (case dr_result r of Inl e \<Rightarrow> Inl e | Inr v \<Rightarrow> Inr (f v)),
      dr_diagnostics = dr_diagnostics r\<rparr>"

text \<open>\<open>unwrap\<close>: \<open>None\<close> is the panic on an error or on diagnostics not yet taken.\<close>

definition dr_unwrap :: "('e, 'a) diagnostic_result \<Rightarrow> 'a option" where
  "dr_unwrap r =
     (if dr_diagnostics r \<noteq> [] then None
      else case dr_result r of Inl _ \<Rightarrow> None | Inr v \<Rightarrow> Some v)"

section \<open>Rendering\<close>

text \<open>\<open>{:>width$}\<close>.\<close>

definition pad_left :: "nat \<Rightarrow> str \<Rightarrow> str" where
  "pad_left width s = replicate (width - length s) SPACE @ s"

definition display_span :: "span \<Rightarrow> str" where
  "display_span s =
     (if prefix (us ''<'') (sp_file s) then [] else sp_file s @ us '':'')
     @ nat_to_str (sp_start_line s) @ us '':'' @ nat_to_str (sp_start_col s) @ us ''-''
     @ nat_to_str (sp_end_line s) @ us '':'' @ nat_to_str (sp_end_col s)"

definition gutter_line :: "nat \<Rightarrow> nat \<Rightarrow> str \<Rightarrow> str" where
  "gutter_line width n text_line = us ''  '' @ pad_left width (nat_to_str n) @ us '' | '' @ text_line @ [NL]"

text \<open>
  Lines are one-based. \<open>end_line\<close> is at least 1 for every span the front end makes, so the
  index of the last line does not underflow.
\<close>

definition render_span_snippet :: "str \<Rightarrow> span \<Rightarrow> str option" where
  "render_span_snippet source sp =
     (let ls = str_lines source;
          start_line = sp_start_line sp;
          end_line = min (sp_end_line sp) (length ls);
          width = length (nat_to_str end_line);
          padding = replicate width SPACE
      in if start_line < 1 \<or> start_line > length ls then None
         else if start_line = end_line then
           (let line_text = ls ! (start_line - 1);
                start_col = min (sp_start_col sp - 1) (byte_length line_text);
                end_col = min (sp_end_col sp - 1) (byte_length line_text);
                caret_length = (if end_col > start_col then end_col - start_col else 1)
            in Some (gutter_line width start_line line_text
                 @ us ''  '' @ padding @ us '' | '' @ replicate start_col SPACE
                 @ replicate caret_length (uc CHR ''^'')))
         else
           (let last_line = ls ! (end_line - 1);
                end_col = min (sp_end_col sp - 1) (byte_length last_line);
                caret_length = max end_col 1
            in Some (gutter_line width start_line (ls ! (start_line - 1))
                 @ concat (map (\<lambda>n. gutter_line width n (ls ! (n - 1))) [start_line + 1..<end_line])
                 @ gutter_line width end_line last_line
                 @ us ''  '' @ padding @ us '' | '' @ replicate caret_length (uc CHR ''^''))))"

definition format_label :: "str \<Rightarrow> str \<Rightarrow> span_label \<Rightarrow> str" where
  "format_label source out label =
     (let out1 = out @ [NL] @ us '' --> '' @ display_span (sl_span label)
      in case render_span_snippet source (sl_span label) of
           Some snippet \<Rightarrow>
             (let out2 = out1 @ [NL] @ us ''  |'' @ [NL] @ snippet
              in if sl_message label \<noteq> []
                 then trim_end_with (\<lambda>c. c = NL) out2 @ us ''  '' @ sl_message label @ [NL]
                 else out2)
         | None \<Rightarrow> if sl_message label \<noteq> [] then out1 @ us ''  '' @ sl_message label else out1)"

fun format_diagnostic :: "str \<Rightarrow> diagnostic \<Rightarrow> str" where
  "format_diagnostic source (Diagnostic level kind message labels notes children) =
     (let out1 = level_name level @ us ''['' @ kind @ us '']: '' @ message;
          out2 = foldl (format_label source) out1 labels;
          out3 = out2 @ concat (map (\<lambda>n. [NL] @ us ''  = note: '' @ n) notes);
          out4 = out3 @ concat (map (\<lambda>child.
             concat (map (\<lambda>l. [NL] @ us ''  '' @ l) (str_lines (format_diagnostic source child)))) children)
      in out4 @ [NL])"

definition display_diagnostic :: "diagnostic \<Rightarrow> str" where
  "display_diagnostic d = trim_end_with (\<lambda>c. c = NL) (format_diagnostic [] d)"

section \<open>What the results carry\<close>

text \<open>
  A step that appends its own diagnostics to what came before, as the callers of
  \<open>into_parts\<close> and \<open>with_diagnostics\<close> chain them.
\<close>

definition dr_bind ::
  "('e, 'a) diagnostic_result \<Rightarrow> ('a \<Rightarrow> ('e, 'b) diagnostic_result) \<Rightarrow> ('e, 'b) diagnostic_result" where
  "dr_bind r f =
     (case into_parts r of
        (Inl e, ds) \<Rightarrow> with_diagnostics ds (dr_err e)
      | (Inr v, ds) \<Rightarrow> (let r' = f v in r'\<lparr>dr_diagnostics := ds @ dr_diagnostics r'\<rparr>))"



text \<open>
  Strict mode raises severity by one step and never past an error: the bumped level is the
  least one above every level below it, and after two bumps every diagnostic is an error.
\<close>

lemma bump_level_monotone:
  "l \<le> bump l \<and> (l \<le> m \<longrightarrow> bump l \<le> bump m) \<and> bump (bump l) = Err \<and> m \<le> Err"
  by (cases l; cases m) (simp_all add: bump_def less_eq_diagnostic_level_def level_rank_def)

section \<open>Snippets\<close>

lemma byte_length_ascii: "\<forall>c \<in> set s. c < 128 \<Longrightarrow> byte_length s = length s"
  by (induction s) (auto simp: utf8_len_def)

text \<open>
  C37: The snippet of a span inside one line of ASCII text: the line with its number, and below
  it, after a gutter of the same width, carets under exactly the characters of the span.
\<close>

theorem snippet_single_line:
  assumes "sp_start_line sp = n" and "sp_end_line sp = n" and "1 \<le> n" and "n \<le> length (str_lines source)"
    and "\<forall>c \<in> set (str_lines source ! (n - 1)). c < 128"
    and "1 \<le> sp_start_col sp" and "sp_start_col sp < sp_end_col sp"
    and "sp_end_col sp \<le> length (str_lines source ! (n - 1)) + 1"
  shows "\<exists>g h. render_span_snippet source sp = Some (g @ str_lines source ! (n - 1) @ [NL]
      @ h @ replicate (sp_start_col sp - 1) SPACE
      @ replicate (sp_end_col sp - sp_start_col sp) (uc CHR ''^''))
    \<and> length g = length h"
proof -
  define l where "l = str_lines source ! (n - 1)"
  let ?w = "length (nat_to_str n)"
  have l: "str_lines source ! (n - Suc 0) = l" by (simp add: l_def)
  have b: "byte_length l = length l" unfolding l_def by (rule byte_length_ascii) (rule assms(5))
  have m: "min n (length (str_lines source)) = n" "min (sp_start_col sp - 1) (length l) = sp_start_col sp - 1"
    "min (sp_end_col sp - 1) (length l) = sp_end_col sp - 1"
    "sp_end_col sp - 1 - (sp_start_col sp - 1) = sp_end_col sp - sp_start_col sp"
    "sp_start_col sp - 1 < sp_end_col sp - 1"
    using assms(4,6-8) unfolding l_def by linarith+
  have "render_span_snippet source sp = Some ((us ''  '' @ pad_left ?w (nat_to_str n) @ us '' | '') @ l @ [NL]
      @ (us ''  '' @ replicate ?w SPACE @ us '' | '') @ replicate (sp_start_col sp - 1) SPACE
      @ replicate (sp_end_col sp - sp_start_col sp) (uc CHR ''^''))"
    using assms(1-4) m by (simp add: render_span_snippet_def Let_def l b gutter_line_def)
  then show ?thesis unfolding l_def
    by (intro exI [of _ "us ''  '' @ pad_left ?w (nat_to_str n) @ us '' | ''"]
        exI [of _ "us ''  '' @ replicate ?w SPACE @ us '' | ''"]) (simp add: pad_left_def)
qed

theorem snippet_single_line_witness:
  "\<exists>g h. render_span_snippet (us ''let x'') (span_new 1 5 1 6 []) = Some (g @ us ''let x'' @ [NL]
      @ h @ replicate 4 SPACE @ us ''^'') \<and> length g = length h"
proof -
  have "str_lines (us ''let x'') = [us ''let x'']" by (simp add: str_lines_def)
  then show ?thesis
    using snippet_single_line [of "span_new 1 5 1 6 []" 1 "us ''let x''"] by (simp add: span_new_def)
qed

end
