(* ===== verification/Thunk.thy ===== *)
theory Thunk
  imports Diagnostics Symbol_Table
begin

text \<open>
  The lazy cell of \<^verbatim>\<open>src/value.rs\<close>: \<open>UnevaluatedState\<close>, \<open>ThunkInner\<close>, \<open>Thunk\<close> and its
  constructors and methods, \<open>ThunkPanicGuard\<close>, and the part of \<open>Value\<close> they read. An
  \<open>Arc<Thunk>\<close> is an address into a store of thunks. The lock's pair is two fields written in
  one step; the result is a write-once cell; \<open>Notify\<close>, when allocated, is the list of the
  waiters registered and not yet woken. Surface nodes, core expressions and contexts are type
  parameters; the type checker's functions on type values are the record \<open>type_api\<close>.
\<close>

section \<open>Values and their types\<close>

text \<open>
  \<open>Value\<close>: \<open>Tagged p tv\<close> stands for every variant that has a \<open>type_val\<close> field \<open>tv\<close>, with
  \<open>p\<close> its tag and its other fields.
\<close>

datatype 'p rvalue =
  Tagged 'p "'p rvalue option"
| BuilderVal nat
| Annotated (ann_inner: "'p rvalue") (ann_annotation: "'p rvalue") (ann_type: "'p rvalue option")

fun type_val :: "'p rvalue \<Rightarrow> 'p rvalue option" where
  "type_val (Tagged _ tv) = tv"
| "type_val (Annotated _ _ tv) = tv"
| "type_val (BuilderVal _) = None"

fun with_type_val :: "'p rvalue option \<Rightarrow> 'p rvalue \<Rightarrow> 'p rvalue" where
  "with_type_val tv (Tagged p _) = Tagged p tv"
| "with_type_val tv (Annotated i a _) = Annotated i a tv"
| "with_type_val _ (BuilderVal n) = BuilderVal n"

record ('p, 'x) type_api =
  ta_unknown :: "'p rvalue"
  ta_resolve :: "'p rvalue \<Rightarrow> (str \<rightharpoonup> 'p rvalue) \<Rightarrow> 'p rvalue"
  ta_core_type :: "'x \<Rightarrow> 'p rvalue"
  ta_nominal_id :: "'p rvalue \<Rightarrow> u64 option"

definition TYPE_ID_BUILDER :: u64 where "TYPE_ID_BUILDER = 6"

fun type_decl_id_of :: "('p, 'x) type_api \<Rightarrow> 'p rvalue \<Rightarrow> u64" where
  "type_decl_id_of ty (Annotated i _ _) = type_decl_id_of ty i"
| "type_decl_id_of ty (BuilderVal _) = TYPE_ID_BUILDER"
| "type_decl_id_of ty (Tagged p tv) =
     (case Option.bind tv (ta_nominal_id ty) of None \<Rightarrow> 0 | Some n \<Rightarrow> n)"

section \<open>Pending computations\<close>

datatype strictness = StrictId | StrictSeq | StrictSpine

record builtin_def =
  bi_name :: str
  bi_pos_strictness :: "strictness list"
  bi_force_count :: nat
  bi_param_names :: "str list"

text \<open>\<open>==\<close> on definitions compares the names only.\<close>

definition builtin_def_eq :: "builtin_def \<Rightarrow> builtin_def \<Rightarrow> bool" where
  "builtin_def_eq a b \<longleftrightarrow> bi_name a = bi_name b"

datatype blame_parity = Positive | Negative

record blame_label =
  bl_origin_span :: span
  bl_boundary_span :: span
  bl_polarity :: blame_parity

type_synonym named_args = "(str \<times> addr) list"

datatype ('x, 'n, 'c, 'p) unevaluated =
  AstField 'n str 'c
| CoreExpr 'x scope_chain 'c
| BuiltinCall builtin_def "addr list" "named_args option" span 'c scope_chain
| FnCall addr "addr list" "named_args option" span 'c 'x scope_chain
| Guarded addr "'p rvalue" "str list" span "blame_label option" "('x \<times> scope_chain) option"
| AnnotatedWrap addr "'p rvalue" 'c

type_synonym 'p outcome = "diagnostic + 'p rvalue"

record ('x, 'n, 'c, 'p) thunk =
  th_state :: "('x, 'n, 'c, 'p) unevaluated option"
  th_owner :: "nat option"
  th_result :: "'p outcome option"
  th_notify :: "nat list option"
  th_span :: span
  th_type_inst :: "str \<rightharpoonup> 'p rvalue"
  th_inferred_type :: "'p rvalue"

type_synonym ('x, 'n, 'c, 'p) thunk_store = "('x, 'n, 'c, 'p) thunk list"

section \<open>Construction\<close>

definition fresh_thunk ::
  "('x, 'n, 'c, 'p) unevaluated option \<Rightarrow> span \<Rightarrow> 'p rvalue \<Rightarrow> ('x, 'n, 'c, 'p) thunk" where
  "fresh_thunk s sp ty =
     \<lparr>th_state = s, th_owner = None, th_result = None, th_notify = None, th_span = sp,
      th_type_inst = (\<lambda>_. None), th_inferred_type = ty\<rparr>"

definition placeholder :: "('p, 'x) type_api \<Rightarrow> span \<Rightarrow> ('x, 'n, 'c, 'p) thunk" where
  "placeholder ty sp = fresh_thunk None sp (ta_unknown ty)"

definition core_expr :: "('p, 'x) type_api \<Rightarrow> 'x \<Rightarrow> scope_chain \<Rightarrow> 'c \<Rightarrow> span \<Rightarrow> ('x, 'n, 'c, 'p) thunk" where
  "core_expr ty expr scope ctx sp = fresh_thunk (Some (CoreExpr expr scope ctx)) sp (ta_core_type ty expr)"

fun value_thunk :: "('p, 'x) type_api \<Rightarrow> 'p rvalue \<Rightarrow> span \<Rightarrow> ('x, 'n, 'c, 'p) thunk" where
  "value_thunk ty (Annotated i _ _) sp = value_thunk ty i sp"
| "value_thunk ty v sp =
     fresh_thunk None sp (case type_val v of None \<Rightarrow> ta_unknown ty | Some t \<Rightarrow> t)
       \<lparr>th_result := snd (once_set (Inr v) None)\<rparr>"

definition ast_field :: "('p, 'x) type_api \<Rightarrow> 'n \<Rightarrow> str \<Rightarrow> 'c \<Rightarrow> span \<Rightarrow> ('x, 'n, 'c, 'p) thunk" where
  "ast_field ty node field ctx sp = fresh_thunk (Some (AstField node field ctx)) sp (ta_unknown ty)"

definition annotated_wrap ::
  "('x, 'n, 'c, 'p) thunk_store \<Rightarrow> addr \<Rightarrow> 'p rvalue \<Rightarrow> 'c \<Rightarrow> span \<Rightarrow> ('x, 'n, 'c, 'p) thunk" where
  "annotated_wrap st inner annotation ctx sp =
     fresh_thunk (Some (AnnotatedWrap inner annotation ctx)) sp (th_inferred_type (st ! inner))"

definition builtin_call ::
  "builtin_def \<Rightarrow> addr list \<Rightarrow> named_args option \<Rightarrow> span \<Rightarrow> 'c \<Rightarrow> scope_chain \<Rightarrow> 'p rvalue
   \<Rightarrow> ('x, 'n, 'c, 'p) thunk" where
  "builtin_call def args named sp ctx scope ty =
     fresh_thunk (Some (BuiltinCall def args named sp ctx scope)) sp ty"

definition fn_call ::
  "('p, 'x) type_api \<Rightarrow> addr \<Rightarrow> addr list \<Rightarrow> named_args \<Rightarrow> span \<Rightarrow> span \<Rightarrow> 'c \<Rightarrow> 'x \<Rightarrow> scope_chain
   \<Rightarrow> ('x, 'n, 'c, 'p) thunk" where
  "fn_call ty func args named sp call_span ctx original_call scope =
     fresh_thunk
       (Some (FnCall func args (if named = [] then None else Some named) call_span ctx original_call scope))
       sp (ta_core_type ty original_call)"

definition guarded ::
  "('x, 'n, 'c, 'p) thunk_store \<Rightarrow> addr \<Rightarrow> 'p rvalue \<Rightarrow> str list \<Rightarrow> span \<Rightarrow> blame_label option
   \<Rightarrow> ('x \<times> scope_chain) option \<Rightarrow> ('x, 'n, 'c, 'p) thunk" where
  "guarded st inner expected field_path guard_span blame fallback =
     fresh_thunk (Some (Guarded inner expected field_path guard_span blame fallback))
       (guard_span\<lparr>sp_name := Some (us ''type guard'')\<rparr>) (th_inferred_type (st ! inner))"

section \<open>Settling and claiming\<close>

definition typed_outcome :: "('p, 'x) type_api \<Rightarrow> ('x, 'n, 'c, 'p) thunk \<Rightarrow> 'p outcome \<Rightarrow> 'p outcome" where
  "typed_outcome ty t r =
     (case r of
        Inl e \<Rightarrow> Inl e
      | Inr v \<Rightarrow> Inr (with_type_val (Some (ta_resolve ty (th_inferred_type t) (th_type_inst t))) v))"

text \<open>
  \<open>settle\<close> is three atomic steps: the write-once store of the typed result, the clearing of
  the task id under the lock, and the wake-up of the registered waiters.
\<close>

definition settle_store :: "('p, 'x) type_api \<Rightarrow> 'p outcome \<Rightarrow> ('x, 'n, 'c, 'p) thunk \<Rightarrow> ('x, 'n, 'c, 'p) thunk" where
  "settle_store ty r t = t\<lparr>th_result := snd (once_set (typed_outcome ty t r) (th_result t))\<rparr>"

definition settle_clear :: "('x, 'n, 'c, 'p) thunk \<Rightarrow> ('x, 'n, 'c, 'p) thunk" where
  "settle_clear t = t\<lparr>th_owner := None\<rparr>"

definition settle_notify :: "('x, 'n, 'c, 'p) thunk \<Rightarrow> ('x, 'n, 'c, 'p) thunk" where
  "settle_notify t = t\<lparr>th_notify := map_option (\<lambda>_. []) (th_notify t)\<rparr>"

definition settle :: "('p, 'x) type_api \<Rightarrow> 'p outcome \<Rightarrow> ('x, 'n, 'c, 'p) thunk \<Rightarrow> ('x, 'n, 'c, 'p) thunk" where
  "settle ty r t = settle_notify (settle_clear (settle_store ty r t))"

text \<open>\<open>settled\<close>: \<open>register\<close> allocates the notifier if needed and enables the caller's future.\<close>

definition register :: "nat \<Rightarrow> ('x, 'n, 'c, 'p) thunk \<Rightarrow> ('x, 'n, 'c, 'p) thunk" where
  "register i t =
     t\<lparr>th_notify := Some (case th_notify t of None \<Rightarrow> [i] | Some ws \<Rightarrow> List.insert i ws)\<rparr>"

definition try_claim ::
  "nat option \<Rightarrow> ('x, 'n, 'c, 'p) thunk \<Rightarrow> ('x, 'n, 'c, 'p) unevaluated option \<times> ('x, 'n, 'c, 'p) thunk" where
  "try_claim task t =
     (case th_state t of
        None \<Rightarrow> (None, t)
      | Some s \<Rightarrow> (Some s, t\<lparr>th_state := None, th_owner := task\<rparr>))"

definition reset :: "('x, 'n, 'c, 'p) unevaluated \<Rightarrow> ('x, 'n, 'c, 'p) thunk \<Rightarrow> ('x, 'n, 'c, 'p) thunk" where
  "reset s t = t\<lparr>th_state := Some s, th_owner := None\<rparr>"

fun replace_ctx :: "'c \<Rightarrow> ('x, 'n, 'c, 'p) unevaluated \<Rightarrow> ('x, 'n, 'c, 'p) unevaluated" where
  "replace_ctx c (CoreExpr e s _) = CoreExpr e s c"
| "replace_ctx c (AstField n f _) = AstField n f c"
| "replace_ctx c (BuiltinCall d as nm sp _ s) = BuiltinCall d as nm sp c s"
| "replace_ctx c (FnCall f as nm sp _ oc s) = FnCall f as nm sp c oc s"
| "replace_ctx _ (Guarded i e fp g bl df) = Guarded i e fp g bl df"
| "replace_ctx c (AnnotatedWrap i a _) = AnnotatedWrap i a c"

definition with_replaced_ctx :: "'c \<Rightarrow> ('x, 'n, 'c, 'p) thunk \<Rightarrow> ('x, 'n, 'c, 'p) thunk option" where
  "with_replaced_ctx new_ctx t =
     (case th_state t of
        None \<Rightarrow> None
      | Some s \<Rightarrow> Some
          \<lparr>th_state = Some (replace_ctx new_ctx s), th_owner = None, th_result = None, th_notify = None,
           th_span = th_span t, th_type_inst = th_type_inst t, th_inferred_type = th_inferred_type t\<rparr>)"

text \<open>
  The letrec patch of \<open>eval_dict_core\<close>: the real scope chain replaces the provisional one in
  a core-expression thunk that nothing has claimed.
\<close>

definition patch_scope :: "nat option \<Rightarrow> scope_chain \<Rightarrow> ('x, 'n, 'c, 'p) thunk \<Rightarrow> ('x, 'n, 'c, 'p) thunk" where
  "patch_scope task letrec_chain t =
     (case try_claim task t of
        (Some (CoreExpr e _ c), t') \<Rightarrow> reset (CoreExpr e letrec_chain c) t'
      | (Some other, t') \<Rightarrow> reset other t'
      | (None, t') \<Rightarrow> t')"

definition patch_letrec ::
  "nat option \<Rightarrow> scope_chain \<Rightarrow> addr option list \<Rightarrow> ('x, 'n, 'c, 'p) thunk_store \<Rightarrow> ('x, 'n, 'c, 'p) thunk_store" where
  "patch_letrec task letrec_chain core_thunks st =
     fold (\<lambda>maybe st. case maybe of None \<Rightarrow> st | Some a \<Rightarrow> st[a := patch_scope task letrec_chain (st ! a)])
       core_thunks st"

section \<open>Inspection\<close>

definition peek_result :: "('x, 'n, 'c, 'p) thunk \<Rightarrow> 'p outcome option" where
  "peek_result t = th_result t"

definition is_settled :: "('x, 'n, 'c, 'p) thunk \<Rightarrow> bool" where
  "is_settled t \<longleftrightarrow> th_result t \<noteq> None"

definition is_materialized :: "('x, 'n, 'c, 'p) thunk \<Rightarrow> bool" where
  "is_materialized t = (case th_result t of Some (Inr _) \<Rightarrow> True | _ \<Rightarrow> False)"

definition try_get_error :: "('x, 'n, 'c, 'p) thunk \<Rightarrow> diagnostic option" where
  "try_get_error t = (case th_result t of Some (Inl e) \<Rightarrow> Some e | _ \<Rightarrow> None)"

definition require_value :: "span \<Rightarrow> ('x, 'n, 'c, 'p) thunk \<Rightarrow> (diagnostic, 'p rvalue) diagnostic_result" where
  "require_value rust_span t =
     (case peek_result t of
        Some (Inr v) \<Rightarrow> dr_ok v
      | Some (Inl e) \<Rightarrow> dr_err e
      | None \<Rightarrow> dr_err (diagnostic_error (us ''eval'') (us ''require_value called on unsettled thunk'') rust_span))"

definition type_decl_id :: "('p, 'x) type_api \<Rightarrow> ('x, 'n, 'c, 'p) thunk \<Rightarrow> u64" where
  "type_decl_id ty t = (case ta_nominal_id ty (th_inferred_type t) of None \<Rightarrow> 0 | Some n \<Rightarrow> n)"

definition render_thunk :: "('p rvalue \<Rightarrow> str) \<Rightarrow> ('x, 'n, 'c, 'p) thunk \<Rightarrow> str" where
  "render_thunk render_value t =
     (case peek_result t of
        Some (Inr v) \<Rightarrow> render_value v
      | Some (Inl e) \<Rightarrow> us ''<error: '' @ dg_message e @ us ''>''
      | None \<Rightarrow> us ''<thunk@'' @ sp_file (th_span t) @ us '':'' @ nat_to_str (sp_start_line (th_span t)) @ us '':''
          @ nat_to_str (sp_start_col (th_span t)) @ us '' type='' @ render_value (th_inferred_type t) @ us ''>'')"

definition peek_builtin_def :: "('x, 'n, 'c, 'p) thunk \<Rightarrow> builtin_def option" where
  "peek_builtin_def t = (case th_state t of Some (BuiltinCall d _ _ _ _ _) \<Rightarrow> Some d | _ \<Rightarrow> None)"

definition is_guarded :: "('x, 'n, 'c, 'p) thunk \<Rightarrow> bool" where
  "is_guarded t = (case th_state t of Some (Guarded _ _ _ _ _ _) \<Rightarrow> True | _ \<Rightarrow> False)"

definition is_pending_call :: "('x, 'n, 'c, 'p) thunk \<Rightarrow> bool" where
  "is_pending_call t = (case th_state t of Some (FnCall _ _ _ _ _ _ _) \<Rightarrow> True | _ \<Rightarrow> False)"

definition peek_ast_node_field :: "('x, 'n, 'c, 'p) thunk \<Rightarrow> ('n \<times> str) option" where
  "peek_ast_node_field t = (case th_state t of Some (AstField n f _) \<Rightarrow> Some (n, f) | _ \<Rightarrow> None)"

text \<open>The outcome a \<open>ThunkPanicGuard\<close> that is dropped without \<open>settle\<close> gives its thunk.\<close>

definition panic_outcome :: "('x, 'n, 'c, 'p) thunk \<Rightarrow> 'p outcome" where
  "panic_outcome t = Inl (diagnostic_error (us ''eval'') (us ''thunk evaluation task panicked'') (th_span t))"

definition guard_drop :: "('p, 'x) type_api \<Rightarrow> ('x, 'n, 'c, 'p) thunk \<Rightarrow> ('x, 'n, 'c, 'p) thunk" where
  "guard_drop ty t = settle ty (panic_outcome t) t"

end
