(* ===== verification/Thunk_Protocol.thy ===== *)
theory Thunk_Protocol
  imports Thunk
begin

text \<open>
  The concurrent forcing of one thunk: \<open>materialize\<close> (\<^verbatim>\<open>src/eval.rs\<close>), the same loop of
  \<open>force_step\<close> and the settling of \<open>Cont::Memoize\<close> (\<^verbatim>\<open>src/eval_materialize.rs\<close>). A call
  of \<open>materialize\<close> is a small state machine whose steps are the accesses to the shared cells,
  in the order of the code; any number of calls interleave, each with the id its task has, or
  none when it runs under \<open>block_on\<close>. What an evaluation computes is left open: it ends with
  any outcome, panics, or puts the thunk back with \<open>reset\<close> and forces it again.
\<close>

section \<open>Errors on their way through a call site\<close>

definition decorate :: "span option \<Rightarrow> diagnostic \<Rightarrow> diagnostic" where
  "decorate mat_span e =
     (case mat_span of
        None \<Rightarrow> e
      | Some sp \<Rightarrow>
          (case nth_opt (dg_labels e) 1 of
             None \<Rightarrow> with_materialization_span sp e
           | Some l \<Rightarrow>
               if \<not> span_eq (sl_span l) sp \<and> \<not> list_ex (\<lambda>l. span_eq (sl_span l) sp) (dg_labels e)
               then push_frame (us ''materialized'') sp e else e))"

definition attach_materialization_context ::
  "span option \<Rightarrow> str option \<Rightarrow> span \<Rightarrow> diagnostic \<Rightarrow> diagnostic" where
  "attach_materialization_context mat_span origin thunk_span e =
     (let e = decorate mat_span e
      in case origin of
           None \<Rightarrow> e
         | Some label \<Rightarrow>
             (let message = us ''in function '' @ label
              in if \<not> list_ex (\<lambda>l. span_eq (sl_span l) thunk_span \<and> sl_message l = message) (dg_labels e)
                 then push_frame message thunk_span e else e))"

definition attach_call_site :: "span \<Rightarrow> diagnostic \<Rightarrow> diagnostic" where
  "attach_call_site call_span e = push_label call_span (us ''called here'') e"

definition cycle_of :: "str \<Rightarrow> span \<Rightarrow> (str \<times> span) list \<Rightarrow> diagnostic" where
  "cycle_of kind sp path =
     fold (\<lambda>(n, s). with_label s (us ''via '' @ n)) path
       (diagnostic_error kind
          (us ''circular dependency: '' @ (case sp_name sp of None \<Rightarrow> us ''thunk'' | Some n \<Rightarrow> n)) sp)"

text \<open>The cycle errors of \<open>materialize\<close> and of \<open>force_step\<close>.\<close>

definition cycle_error :: "span \<Rightarrow> (str \<times> span) list \<Rightarrow> diagnostic" where
  "cycle_error sp path = cycle_of (us ''eval/pipeline'') sp path"

definition force_cycle_error :: "span option \<Rightarrow> span \<Rightarrow> (str \<times> span) list \<Rightarrow> diagnostic" where
  "force_cycle_error mat_span sp path =
     (let e = cycle_of (us ''eval/materialize'') sp path
      in case mat_span of None \<Rightarrow> e | Some s \<Rightarrow> with_materialization_span s e)"

text \<open>The value or error \<open>materialize\<close> returns for a stored result.\<close>

definition returned :: "span option \<Rightarrow> 'p outcome \<Rightarrow> (diagnostic, 'p rvalue) diagnostic_result" where
  "returned mat_span r = (case r of Inr v \<Rightarrow> dr_ok v | Inl e \<Rightarrow> dr_err (decorate mat_span e))"

section \<open>One call\<close>

text \<open>
  What a settling call does after the wake-up: \<open>Again\<close> is the settle of \<open>Memoize\<close>, which
  the guard's settle follows; \<open>Loop\<close> the guard's settle; \<open>Back\<close> the cycle found by a
  \<open>force_step\<close> inside the evaluation; \<open>Ret\<close> the cycle found by the call itself;
  \<open>Unwind\<close> the drop of the panic guard.
\<close>

datatype afterwards = Again | Loop | Back | Ret | Unwind

datatype 'p pc =
  CheckResult
| TryClaim
| Recheck
| ReadOwner
| Register
| Enabled
| Awaiting
| Woken
| Evaluating
| Draining
| Store "'p outcome" afterwards
| Clear "'p outcome" afterwards
| Wake "'p outcome" afterwards
| Returned "(diagnostic, 'p rvalue) diagnostic_result"
| Unwound

text \<open>
  \<open>cl_path\<close> is the task-local evaluation stack at the call, \<open>None\<close> when no scope holds one;
  \<open>cl_forcing\<close> says that the call runs the \<open>force_step\<close> that follows a \<open>reset\<close>, with its
  span and its evaluation stack; \<open>cl_diags\<close> are the diagnostics collected so far.
\<close>

record 'p call =
  cl_task :: "nat option"
  cl_span :: "span option"
  cl_path :: "(str \<times> span) list option"
  cl_forcing :: "(span option \<times> (str \<times> span) list) option"
  cl_diags :: "diagnostic list"
  cl_pc :: "'p pc"

text \<open>
  What drives a call: its next access, or what its evaluation does. \<open>Finish r ds m\<close> ends the
  evaluation with \<open>r\<close> and diagnostics \<open>ds\<close>, after \<open>Memoize\<close> when \<open>m\<close>, without it when the
  continuation stack was too deep.
\<close>

datatype ('x, 'n, 'c, 'p) event =
  Tick
| Finish "'p outcome" "diagnostic list" bool
| Panic
| Reset "('x, 'n, 'c, 'p) unevaluated" "span option" "(str \<times> span) list"

definition same_task :: "nat option \<Rightarrow> nat option \<Rightarrow> bool" where
  "same_task evaluating current =
     (case (evaluating, current) of
        (None, None) \<Rightarrow> True
      | (None, Some _) \<Rightarrow> False
      | (Some _, None) \<Rightarrow> False
      | (Some e, Some c) \<Rightarrow> e = c)"

definition registered :: "nat \<Rightarrow> ('x, 'n, 'c, 'p) thunk \<Rightarrow> bool" where
  "registered i t = (case th_notify t of None \<Rightarrow> False | Some ws \<Rightarrow> i \<in> set ws)"

definition deregister :: "nat \<Rightarrow> ('x, 'n, 'c, 'p) thunk \<Rightarrow> ('x, 'n, 'c, 'p) thunk" where
  "deregister i t = t\<lparr>th_notify := map_option (removeAll i) (th_notify t)\<rparr>"

definition goto :: "'p pc \<Rightarrow> 'p call \<Rightarrow> 'p call" where
  "goto p c = c\<lparr>cl_pc := p\<rparr>"

definition cycle_found :: "'p call \<Rightarrow> ('x, 'n, 'c, 'p) thunk \<Rightarrow> 'p call" where
  "cycle_found c t =
     (case cl_forcing c of
        Some (ms, path) \<Rightarrow>
          goto (Store (Inl (force_cycle_error ms (th_span t) path)) Back) (c\<lparr>cl_forcing := None\<rparr>)
      | None \<Rightarrow>
          (case cl_path c of
             None \<Rightarrow> goto Unwound c
           | Some path \<Rightarrow> goto (Store (Inl (cycle_error (th_span t) path)) Ret) c))"

definition after_wake :: "'p outcome \<Rightarrow> afterwards \<Rightarrow> 'p call \<Rightarrow> 'p call" where
  "after_wake r a c =
     (case a of
        Again \<Rightarrow> goto (Store r Loop) c
      | Loop \<Rightarrow> goto CheckResult c
      | Back \<Rightarrow> goto Draining c
      | Ret \<Rightarrow>
          goto (Returned (case r of
                   Inl e \<Rightarrow> with_diagnostics (cl_diags c) (dr_err e)
                 | Inr v \<Rightarrow> with_diagnostics (cl_diags c) (dr_ok v))) c
      | Unwind \<Rightarrow> goto Unwound c)"

definition evaluated :: "'p outcome \<Rightarrow> diagnostic list \<Rightarrow> bool \<Rightarrow> 'p call \<Rightarrow> 'p call" where
  "evaluated r ds memoized c =
     goto (Store r (if memoized then Again else Loop)) (c\<lparr>cl_diags := cl_diags c @ ds\<rparr>)"

fun pc_step ::
  "('p, 'x) type_api \<Rightarrow> nat \<Rightarrow> 'p call \<Rightarrow> ('x, 'n, 'c, 'p) thunk \<Rightarrow> 'p pc \<Rightarrow> ('x, 'n, 'c, 'p) event
   \<Rightarrow> ('p call \<times> ('x, 'n, 'c, 'p) thunk) option" where
  "pc_step ty i c t CheckResult Tick = Some
     (case th_result t of
        Some r \<Rightarrow>
          (case cl_forcing c of
             None \<Rightarrow> (goto (Returned (with_diagnostics (cl_diags c) (returned (cl_span c) r))) c, t)
           | Some _ \<Rightarrow> (goto Draining (c\<lparr>cl_forcing := None\<rparr>), t))
      | None \<Rightarrow> (goto TryClaim c, t))"
| "pc_step ty i c t TryClaim Tick = Some
     (case try_claim (cl_task c) t of
        (Some _, t') \<Rightarrow> (goto Evaluating (c\<lparr>cl_forcing := None\<rparr>), t')
      | (None, t') \<Rightarrow> (goto Recheck c, t'))"
| "pc_step ty i c t Recheck Tick = Some
     (if th_result t \<noteq> None then (goto CheckResult c, t) else (goto ReadOwner c, t))"
| "pc_step ty i c t ReadOwner Tick = Some
     (if same_task (th_owner t) (cl_task c) then (cycle_found c t, t) else (goto Register c, t))"
| "pc_step ty i c t Register Tick = Some (goto Enabled c, register i t)"
| "pc_step ty i c t Enabled Tick = Some
     (if th_result t \<noteq> None then (goto CheckResult c, deregister i t) else (goto Awaiting c, t))"
| "pc_step ty i c t Awaiting Tick = (if registered i t then None else Some (goto Woken c, t))"
| "pc_step ty i c t Woken Tick = Some
     (if th_result t \<noteq> None then (goto CheckResult c, t) else (goto Register c, t))"
| "pc_step ty i c t Evaluating (Finish r ds m) = Some (evaluated r ds m c, t)"
| "pc_step ty i c t Evaluating Panic = Some (goto (Store (panic_outcome t) Unwind) c, t)"
| "pc_step ty i c t Evaluating (Reset s ms path) = Some
     (goto CheckResult (c\<lparr>cl_forcing := Some (ms, path)\<rparr>), reset s t)"
| "pc_step ty i c t Draining (Finish r ds m) = Some (evaluated r ds m c, t)"
| "pc_step ty i c t Draining Panic = Some (goto (Store (panic_outcome t) Unwind) c, t)"
| "pc_step ty i c t (Store r a) Tick = Some (goto (Clear r a) c, settle_store ty r t)"
| "pc_step ty i c t (Clear r a) Tick = Some (goto (Wake r a) c, settle_clear t)"
| "pc_step ty i c t (Wake r a) Tick = Some (after_wake r a c, settle_notify t)"
| "pc_step ty i c t _ _ = None"

definition call_step ::
  "('p, 'x) type_api \<Rightarrow> nat \<Rightarrow> ('x, 'n, 'c, 'p) event \<Rightarrow> 'p call \<Rightarrow> ('x, 'n, 'c, 'p) thunk
   \<Rightarrow> ('p call \<times> ('x, 'n, 'c, 'p) thunk) option" where
  "call_step ty i ev c t = pc_step ty i c t (cl_pc c) ev"

section \<open>Interleaved calls\<close>

text \<open>
  \<open>cf_claims\<close> and \<open>cf_resets\<close> count the successful claims and the resets, \<open>cf_ends\<close> lists
  what evaluations ended with: they record the history and no step reads them.
\<close>

record ('x, 'n, 'c, 'p) config =
  cf_thunk :: "('x, 'n, 'c, 'p) thunk"
  cf_calls :: "nat \<rightharpoonup> 'p call"
  cf_claims :: nat
  cf_resets :: nat
  cf_ends :: "'p outcome list"

definition new_call :: "nat option \<Rightarrow> span option \<Rightarrow> (str \<times> span) list option \<Rightarrow> 'p call" where
  "new_call task mat_span path =
     \<lparr>cl_task = task, cl_span = mat_span, cl_path = path, cl_forcing = None, cl_diags = [],
      cl_pc = CheckResult\<rparr>"

definition claimed_by :: "'p call \<Rightarrow> ('x, 'n, 'c, 'p) thunk \<Rightarrow> nat" where
  "claimed_by c t = (if cl_pc c = TryClaim \<and> th_state t \<noteq> None then 1 else 0)"

definition reset_by :: "('x, 'n, 'c, 'p) event \<Rightarrow> nat" where
  "reset_by ev = (case ev of Reset _ _ _ \<Rightarrow> 1 | _ \<Rightarrow> 0)"

definition ended_by :: "('x, 'n, 'c, 'p) event \<Rightarrow> ('x, 'n, 'c, 'p) thunk \<Rightarrow> 'p outcome list" where
  "ended_by ev t = (case ev of Finish r _ _ \<Rightarrow> [r] | Panic \<Rightarrow> [panic_outcome t] | _ \<Rightarrow> [])"

definition start_config :: "('x, 'n, 'c, 'p) thunk \<Rightarrow> ('x, 'n, 'c, 'p) config" where
  "start_config t =
     \<lparr>cf_thunk = t, cf_calls = (\<lambda>_. None), cf_claims = 0, cf_resets = 0, cf_ends = []\<rparr>"

definition arrive :: "nat \<Rightarrow> 'p call \<Rightarrow> ('x, 'n, 'c, 'p) config \<Rightarrow> ('x, 'n, 'c, 'p) config" where
  "arrive i c w = w\<lparr>cf_calls := (cf_calls w)(i \<mapsto> c)\<rparr>"

definition advance_call ::
  "('p, 'x) type_api \<Rightarrow> nat \<Rightarrow> ('x, 'n, 'c, 'p) event \<Rightarrow> ('x, 'n, 'c, 'p) config \<Rightarrow> ('x, 'n, 'c, 'p) config option" where
  "advance_call ty i ev w =
     (case cf_calls w i of
        None \<Rightarrow> None
      | Some c \<Rightarrow>
          (case call_step ty i ev c (cf_thunk w) of
             None \<Rightarrow> None
           | Some (c', t') \<Rightarrow> Some
               \<lparr>cf_thunk = t', cf_calls = (cf_calls w)(i \<mapsto> c'),
                cf_claims = cf_claims w + claimed_by c (cf_thunk w),
                cf_resets = cf_resets w + reset_by ev,
                cf_ends = cf_ends w @ ended_by ev (cf_thunk w)\<rparr>))"

inductive proto_step ::
  "('p, 'x) type_api \<Rightarrow> ('x, 'n, 'c, 'p) config \<Rightarrow> ('x, 'n, 'c, 'p) config \<Rightarrow> bool" for ty where
  arrival: "cf_calls w i = None \<Longrightarrow> proto_step ty w (arrive i (new_call task ms path) w)"
| move: "advance_call ty i ev w = Some w' \<Longrightarrow> proto_step ty w w'"

inductive proto_steps ::
  "('p, 'x) type_api \<Rightarrow> ('x, 'n, 'c, 'p) config \<Rightarrow> ('x, 'n, 'c, 'p) config \<Rightarrow> bool" for ty w0 where
  stop: "proto_steps ty w0 w0"
| more: "proto_steps ty w0 w \<Longrightarrow> proto_step ty w w' \<Longrightarrow> proto_steps ty w0 w'"

definition proto_reach :: "('p, 'x) type_api \<Rightarrow> ('x, 'n, 'c, 'p) thunk \<Rightarrow> ('x, 'n, 'c, 'p) config \<Rightarrow> bool" where
  "proto_reach ty t w \<longleftrightarrow> proto_steps ty (start_config t) w"

text \<open>A schedule lists which call moves, and how; new calls arrive in between.\<close>

datatype ('x, 'n, 'c, 'p) item = Arrives nat "'p call" | Moves nat "('x, 'n, 'c, 'p) event"

fun run_schedule ::
  "('p, 'x) type_api \<Rightarrow> ('x, 'n, 'c, 'p) item list \<Rightarrow> ('x, 'n, 'c, 'p) config \<Rightarrow> ('x, 'n, 'c, 'p) config option" where
  "run_schedule ty [] w = Some w"
| "run_schedule ty (Arrives i c # xs) w =
     (if cf_calls w i = None \<and> c = new_call (cl_task c) (cl_span c) (cl_path c)
      then run_schedule ty xs (arrive i c w) else None)"
| "run_schedule ty (Moves i ev # xs) w =
     (case advance_call ty i ev w of None \<Rightarrow> None | Some w' \<Rightarrow> run_schedule ty xs w')"

end
