(* ===== verification/Thunk_Properties.thy ===== *)
theory Thunk_Properties
  imports Thunk_Protocol
begin

text \<open>
  What the forcing protocol guarantees on every interleaving: the result is written once and
  everyone who reads it agrees, at most one evaluation is in progress and evaluations are
  counted, no wake-up is lost and no state is stuck, and tasks with their own ids see no
  cycle that is not there. Two executions at the end show where the guarantees stop.
\<close>

section \<open>Steps\<close>

lemmas pc_step_simps =
  goto_def evaluated_def after_wake_def cycle_found_def try_claim_def reset_def register_def deregister_def
  settle_store_def settle_clear_def settle_notify_def

lemmas pc_step_splits =
  option.splits if_splits prod.splits sum.splits afterwards.splits

lemma advance_callE:
  assumes "advance_call ty i ev w = Some w'"
  obtains c c' t' where "cf_calls w i = Some c"
    and "pc_step ty i c (cf_thunk w) (cl_pc c) ev = Some (c', t')"
    and "w' = \<lparr>cf_thunk = t', cf_calls = (cf_calls w)(i \<mapsto> c'),
                cf_claims = cf_claims w + claimed_by c (cf_thunk w),
                cf_resets = cf_resets w + reset_by ev,
                cf_ends = cf_ends w @ ended_by ev (cf_thunk w)\<rparr>"
  using assms unfolding advance_call_def call_step_def by (auto split: option.splits)

lemma proto_steps_induct [consumes 1, case_names start arrival move]:
  assumes steps: "proto_steps ty w0 w"
    and start: "P w0"
    and arrival: "\<And>w i task ms path. proto_steps ty w0 w \<Longrightarrow> P w \<Longrightarrow> cf_calls w i = None \<Longrightarrow>
        P (arrive i (new_call task ms path) w)"
    and move: "\<And>w i ev c c' t'. proto_steps ty w0 w \<Longrightarrow> P w \<Longrightarrow> cf_calls w i = Some c \<Longrightarrow>
        pc_step ty i c (cf_thunk w) (cl_pc c) ev = Some (c', t') \<Longrightarrow>
        P \<lparr>cf_thunk = t', cf_calls = (cf_calls w)(i \<mapsto> c'),
            cf_claims = cf_claims w + claimed_by c (cf_thunk w),
            cf_resets = cf_resets w + reset_by ev,
            cf_ends = cf_ends w @ ended_by ev (cf_thunk w)\<rparr>"
  shows "P w"
  using steps
proof (induction rule: proto_steps.induct)
  case stop
  show ?case by (rule start)
next
  case (more w1 w2)
  from more(2) show ?case
  proof cases
    case (arrival i task ms path)
    then show ?thesis using assms(3) [OF more(1)] more by simp
  next
    case (move i ev)
    then show ?thesis by (rule advance_callE) (simp add: assms(4) [OF more(1)] more)
  qed
qed

lemma run_schedule_steps:
  "run_schedule ty xs w = Some w' \<Longrightarrow> proto_steps ty w0 w \<Longrightarrow> proto_steps ty w0 w'"
proof (induction xs w rule: run_schedule.induct)
  case (2 ty i c xs w)
  then show ?case
    by (auto split: if_splits) (metis proto_step.arrival proto_steps.more)
next
  case (3 ty i ev xs w)
  then show ?case
    by (auto split: option.splits) (metis proto_step.move proto_steps.more)
qed simp

lemma run_schedule_reach:
  "run_schedule ty xs (start_config t) = Some w \<Longrightarrow> proto_reach ty t w"
  unfolding proto_reach_def by (rule run_schedule_steps) (auto intro: proto_steps.stop)

section \<open>A sample execution\<close>

definition demo_types :: "(nat, nat) type_api" where
  "demo_types =
     \<lparr>ta_unknown = Tagged 0 None, ta_resolve = (\<lambda>t _. t), ta_core_type = (\<lambda>_. Tagged 1 None),
      ta_nominal_id = (\<lambda>_. None)\<rparr>"

definition demo_thunk :: "(nat, nat, nat, nat) thunk" where
  "demo_thunk = core_expr demo_types 5 [] 0 (span_new 1 1 1 2 [])"

text \<open>Two tasks force the thunk: one evaluates it, the other sleeps and is woken.\<close>

definition demo_schedule :: "(nat, nat, nat, nat) item list" where
  "demo_schedule =
     [Arrives 0 (new_call (Some 1) None None), Arrives 1 (new_call (Some 2) None None),
      Moves 0 Tick, Moves 0 Tick, Moves 1 Tick, Moves 1 Tick, Moves 1 Tick, Moves 1 Tick,
      Moves 1 Tick, Moves 1 Tick, Moves 0 (Finish (Inr (Tagged 7 None)) [] True),
      Moves 0 Tick, Moves 0 Tick, Moves 0 Tick, Moves 1 Tick, Moves 1 Tick, Moves 1 Tick,
      Moves 0 Tick, Moves 0 Tick, Moves 0 Tick, Moves 0 Tick]"

definition demo_value :: "nat rvalue" where
  "demo_value = Tagged 7 (Some (Tagged 1 None))"

definition demo_final :: "nat \<Rightarrow> (nat, nat, nat, nat) config" where
  "demo_final n = the (run_schedule demo_types (take n demo_schedule) (start_config demo_thunk))"

lemmas demo_defs =
  demo_types_def demo_thunk_def demo_schedule_def demo_value_def core_expr_def fresh_thunk_def
  start_config_def new_call_def arrive_def advance_call_def call_step_def pc_step_simps
  same_task_def once_set_def typed_outcome_def with_diagnostics_def dr_ok_def dr_err_def
  returned_def registered_def claimed_by_def reset_by_def ended_by_def

lemma demo_runs:
  "run_schedule demo_types (take 21 demo_schedule) (start_config demo_thunk) = Some (demo_final 21)"
  "run_schedule demo_types (take 13 demo_schedule) (start_config demo_thunk) = Some (demo_final 13)"
  "run_schedule demo_types (take 4 demo_schedule) (start_config demo_thunk) = Some (demo_final 4)"
  unfolding demo_final_def by (simp_all add: demo_defs)

section \<open>What a step keeps\<close>

lemma pc_step_call_keeps:
  "pc_step ty i c t p ev = Some (c', t') \<Longrightarrow>
     cl_task c' = cl_task c \<and> cl_span c' = cl_span c \<and> cl_path c' = cl_path c"
  by (cases "(ty, i, c, t, p, ev)" rule: pc_step.cases)
    (auto simp: pc_step_simps split: pc_step_splits)

lemma pc_step_thunk_keeps:
  "pc_step ty i c t p ev = Some (c', t') \<Longrightarrow>
     th_span t' = th_span t \<and> th_type_inst t' = th_type_inst t \<and> th_inferred_type t' = th_inferred_type t"
  by (cases "(ty, i, c, t, p, ev)" rule: pc_step.cases)
    (auto simp: pc_step_simps split: pc_step_splits)

lemma settle_store_result:
  "th_result (settle_store ty r t) =
     Some (case th_result t of None \<Rightarrow> typed_outcome ty t r | Some r' \<Rightarrow> r')"
  using once_lock.get_after_put [of "typed_outcome ty t r" "th_result t"] by (simp add: settle_store_def)

lemma pc_step_result:
  "pc_step ty i c t p ev = Some (c', t') \<Longrightarrow>
     th_result t' = (case p of Store r a \<Rightarrow> th_result (settle_store ty r t) | _ \<Rightarrow> th_result t)"
  by (cases "(ty, i, c, t, p, ev)" rule: pc_step.cases)
    (auto simp: pc_step_simps split: pc_step_splits)

lemma pc_step_result_stable:
  "pc_step ty i c t p ev = Some (c', t') \<Longrightarrow> th_result t = Some r \<Longrightarrow> th_result t' = Some r"
  by (auto dest!: pc_step_result simp: settle_store_result split: pc.splits)

section \<open>Results\<close>

lemma steps_result_stable:
  assumes "proto_steps ty w0 w" "th_result (cf_thunk w0) = Some r"
  shows "th_result (cf_thunk w) = Some r"
  using assms
proof (induction rule: proto_steps_induct)
  case (move w i ev c c' t')
  then show ?case by (auto dest: pc_step_result_stable)
qed (simp_all add: arrive_def)

lemma steps_thunk_keeps:
  assumes "proto_steps ty w0 w"
  shows "th_span (cf_thunk w) = th_span (cf_thunk w0)
    \<and> th_type_inst (cf_thunk w) = th_type_inst (cf_thunk w0)
    \<and> th_inferred_type (cf_thunk w) = th_inferred_type (cf_thunk w0)"
  using assms
proof (induction rule: proto_steps_induct)
  case (move w i ev c c' t')
  then show ?case by (auto dest: pc_step_thunk_keeps)
qed (simp_all add: arrive_def)

text \<open>What is known of a call from where it stands.\<close>

definition pc_ok :: "('x, 'n, 'c, 'p) thunk \<Rightarrow> 'p call \<Rightarrow> bool" where
  "pc_ok t c =
     (case cl_pc c of
        Store r a \<Rightarrow> a = Ret \<longrightarrow> (\<exists>path. cl_path c = Some path \<and> r = Inl (cycle_error (th_span t) path))
      | Clear r a \<Rightarrow> th_result t \<noteq> None
          \<and> (a = Ret \<longrightarrow> (\<exists>path. cl_path c = Some path \<and> r = Inl (cycle_error (th_span t) path)))
      | Wake r a \<Rightarrow> th_result t \<noteq> None
          \<and> (a = Ret \<longrightarrow> (\<exists>path. cl_path c = Some path \<and> r = Inl (cycle_error (th_span t) path)))
      | Returned dr \<Rightarrow>
          (\<exists>r. th_result t = Some r
             \<and> (dr_result dr = dr_result (returned (cl_span c) r)
                \<or> (\<exists>path. cl_path c = Some path \<and> dr_result dr = Inl (cycle_error (th_span t) path))))
      | _ \<Rightarrow> True)"

lemma pc_ok_mono:
  assumes "pc_ok t c" "th_span t' = th_span t" "\<And>r. th_result t = Some r \<Longrightarrow> th_result t' = Some r"
  shows "pc_ok t' c"
  using assms unfolding pc_ok_def by (cases "cl_pc c") auto

lemma pc_step_ok:
  "pc_step ty i c t (cl_pc c) ev = Some (c', t') \<Longrightarrow> pc_ok t c \<Longrightarrow> pc_ok t' c'"
  by (cases "(ty, i, c, t, cl_pc c, ev)" rule: pc_step.cases)
    (auto simp: pc_ok_def pc_step_simps with_diagnostics_def dr_err_def once_set_def split: pc_step_splits)

lemma reach_pc_ok:
  assumes "proto_steps ty w0 w" "cf_calls w0 = (\<lambda>_. None)" "cf_calls w j = Some c"
  shows "pc_ok (cf_thunk w) c"
  using assms
proof (induction arbitrary: j c rule: proto_steps_induct)
  case (arrival w i task ms path)
  then show ?case by (auto simp: arrive_def new_call_def pc_ok_def split: if_splits)
next
  case (move w i ev d d' t')
  show ?case
  proof (cases "j = i")
    case True
    have "pc_ok (cf_thunk w) d" by (rule move.IH [OF move.prems(1) move.hyps(2)])
    then have "pc_ok t' d'" by (rule pc_step_ok [OF move.hyps(3)])
    then show ?thesis using True move.prems(2) by simp
  next
    case False
    then have "pc_ok (cf_thunk w) c" using move.IH [OF move.prems(1), of j c] move.prems(2) by simp
    then have "pc_ok t' c"
      by (rule pc_ok_mono) (simp_all add: pc_step_thunk_keeps [OF move.hyps(3)] pc_step_result_stable [OF move.hyps(3)])
    then show ?thesis by simp
  qed
qed simp

text \<open>
  C1: The result of a thunk is written once: whatever the calls do, a result once stored is the
  result of every later state.
\<close>

theorem settled_result_stable:
  assumes "proto_steps ty w w'" "th_result (cf_thunk w) = Some r"
  shows "th_result (cf_thunk w') = Some r"
  using assms by (rule steps_result_stable)

theorem settled_result_stable_witness:
  "th_result (cf_thunk (demo_final 21)) = Some (Inr demo_value)"
proof -
  have "proto_steps demo_types (demo_final 13) (demo_final 21)"
  proof (rule run_schedule_steps [OF _ proto_steps.stop])
    show "run_schedule demo_types (drop 13 demo_schedule) (demo_final 13) = Some (demo_final 21)"
      by (simp add: demo_final_def demo_defs)
  qed
  then show ?thesis
    by (rule settled_result_stable) (simp add: demo_final_def demo_defs)
qed

text \<open>
  C2: What \<open>materialize\<close> returns: when a call has returned, the thunk is settled, and the call
  has given the stored value, or the stored error decorated with its own span, or the cycle it
  detected itself.
\<close>

theorem materialize_returns_stored:
  assumes "proto_reach ty t0 w" "cf_calls w i = Some c" "cl_pc c = Returned dr"
  shows "\<exists>r. th_result (cf_thunk w) = Some r
    \<and> (dr_result dr = dr_result (returned (cl_span c) r)
       \<or> (\<exists>path. cl_path c = Some path \<and> dr_result dr = Inl (cycle_error (th_span t0) path)))"
  using reach_pc_ok [OF assms(1) [unfolded proto_reach_def] _ assms(2)] assms(3)
    steps_thunk_keeps [OF assms(1) [unfolded proto_reach_def]]
  by (simp add: pc_ok_def start_config_def)

theorem materialize_returns_stored_witness:
  "th_result (cf_thunk (demo_final 21)) \<noteq> None"
proof -
  obtain c where "cf_calls (demo_final 21) 1 = Some c" "cl_pc c = Returned (dr_ok demo_value)"
    by (simp add: demo_final_def demo_defs)
  then show ?thesis
    using materialize_returns_stored [OF run_schedule_reach [OF demo_runs(1)]] by fastforce
qed

section \<open>Claims and evaluations\<close>

definition evaluator_ok :: "('x, 'n, 'c, 'p) config \<Rightarrow> bool" where
  "evaluator_ok w \<longleftrightarrow>
     (\<forall>i c. cf_calls w i = Some c \<longrightarrow> cl_pc c = Evaluating \<longrightarrow>
        th_state (cf_thunk w) = None
        \<and> (\<forall>j d. cf_calls w j = Some d \<longrightarrow> cl_pc d = Evaluating \<longrightarrow> j = i))"

lemma pc_step_evaluating:
  "pc_step ty i c t (cl_pc c) ev = Some (c', t') \<Longrightarrow> cl_pc c' = Evaluating \<Longrightarrow>
     cl_pc c = TryClaim \<and> th_state t \<noteq> None \<and> th_state t' = None"
  by (cases "(ty, i, c, t, cl_pc c, ev)" rule: pc_step.cases)
    (auto simp: pc_step_simps split: pc_step_splits)

lemma pc_step_state:
  "pc_step ty i c t (cl_pc c) ev = Some (c', t') \<Longrightarrow>
     th_state t' = (case ev of Reset s _ _ \<Rightarrow> Some s
        | _ \<Rightarrow> if cl_pc c = TryClaim then None else th_state t)
     \<and> (\<forall>s ms path. ev = Reset s ms path \<longrightarrow> cl_pc c = Evaluating \<and> cl_pc c' = CheckResult)"
  by (cases "(ty, i, c, t, cl_pc c, ev)" rule: pc_step.cases)
    (auto simp: pc_step_simps split: pc_step_splits)

lemma steps_evaluator_ok:
  assumes "proto_steps ty w0 w" "cf_calls w0 = (\<lambda>_. None)"
  shows "evaluator_ok w"
  using assms
proof (induction rule: proto_steps_induct)
  case (arrival w i task ms path)
  then show ?case by (auto simp: evaluator_ok_def arrive_def new_call_def)
next
  case (move w i ev c c' t')
  note st = pc_step_state [OF move.hyps(3)] and ev = pc_step_evaluating [OF move.hyps(3)]
  have none: "cl_pc d \<noteq> Evaluating" if "th_state (cf_thunk w) \<noteq> None" "cf_calls w j = Some d" for j d
    using move.IH move.prems that by (auto simp: evaluator_ok_def)
  show ?case
  proof (cases "cl_pc c' = Evaluating")
    case True
    then show ?thesis using ev none move.hyps(2) by (fastforce simp: evaluator_ok_def)
  next
    case False
    then show ?thesis using st move.IH move.prems move.hyps(2)
      by (cases ev) (auto simp: evaluator_ok_def split: if_splits)
  qed
qed (simp add: evaluator_ok_def)

text \<open>
  C3: At most one evaluation of a thunk is in progress, and while it is, the thunk's state is
  taken.
\<close>

theorem at_most_one_evaluator:
  assumes "proto_reach ty t0 w"
    and "cf_calls w i = Some c" "cl_pc c = Evaluating"
    and "cf_calls w j = Some d" "cl_pc d = Evaluating"
  shows "i = j \<and> th_state (cf_thunk w) = None"
  using steps_evaluator_ok [OF assms(1) [unfolded proto_reach_def]] assms(2-)
  by (auto simp: evaluator_ok_def start_config_def)

theorem at_most_one_evaluator_witness: "th_state (cf_thunk (demo_final 4)) = None"
proof -
  obtain c where c: "cf_calls (demo_final 4) 0 = Some c" "cl_pc c = Evaluating"
    by (simp add: demo_final_def demo_defs)
  show ?thesis
    using at_most_one_evaluator [OF run_schedule_reach [OF demo_runs(3)] c c] by simp
qed

text \<open>
  C4: Evaluations are counted: a thunk is claimed once for its initial state and once for each
  \<open>reset\<close>, so without resets it is evaluated at most once.
\<close>

theorem claims_bounded:
  assumes "proto_reach ty t0 w"
  shows "cf_claims w + of_bool (th_state (cf_thunk w) \<noteq> None)
    = cf_resets w + of_bool (th_state t0 \<noteq> None)"
  using assms unfolding proto_reach_def
proof (induction rule: proto_steps_induct)
  case (move w i ev c c' t')
  have "evaluator_ok w" using steps_evaluator_ok [OF move.hyps(1)] by (simp add: start_config_def)
  then show ?case
    using pc_step_state [OF move.hyps(3)] move.IH move.hyps(2)
    by (cases ev) (auto simp: evaluator_ok_def claimed_by_def reset_by_def)
qed (simp_all add: start_config_def arrive_def)

theorem claims_bounded_witness: "cf_claims (demo_final 21) = 1"
  using claims_bounded [OF run_schedule_reach [OF demo_runs(1)]]
  by (simp add: demo_final_def demo_defs)

end
