(* ===== verification/Thunk_Progress.thy ===== *)
theory Thunk_Progress
  imports Thunk_Properties
begin

text \<open>
  Progress of the forcing protocol: a settled thunk leaves nobody asleep, a thunk that can be
  evaluated never leaves all calls stuck, and calls made on tasks with ids of their own get
  the outcome of an evaluation and no cycle error. The executions at the end show a cycle that
  is reported although there is none, and a placeholder that is waited for forever.
\<close>

section \<open>Wake-ups\<close>

definition waking :: "'p call \<Rightarrow> bool" where
  "waking c = (case cl_pc c of Clear _ _ \<Rightarrow> True | Wake _ _ \<Rightarrow> True | _ \<Rightarrow> False)"

definition asleep :: "('x, 'n, 'c, 'p) config \<Rightarrow> nat \<Rightarrow> bool" where
  "asleep w i \<longleftrightarrow>
     (\<exists>c. cf_calls w i = Some c \<and> cl_pc c = Awaiting \<and> registered i (cf_thunk w))"

definition wake_ok :: "('x, 'n, 'c, 'p) config \<Rightarrow> bool" where
  "wake_ok w \<longleftrightarrow>
     (th_result (cf_thunk w) \<noteq> None \<longrightarrow> (\<exists>i. asleep w i) \<longrightarrow>
        (\<exists>j d. cf_calls w j = Some d \<and> waking d))"

lemma pc_step_registered:
  "pc_step ty i c t (cl_pc c) ev = Some (c', t') \<Longrightarrow> j \<noteq> i \<Longrightarrow> registered j t' \<Longrightarrow> registered j t"
  by (cases "(ty, i, c, t, cl_pc c, ev)" rule: pc_step.cases)
    (auto simp: pc_step_simps registered_def split: pc_step_splits)

lemma pc_step_waking:
  "pc_step ty i c t (cl_pc c) ev = Some (c', t') \<Longrightarrow> waking c \<Longrightarrow>
     waking c' \<or> (\<forall>j. \<not> registered j t')"
  by (cases "(ty, i, c, t, cl_pc c, ev)" rule: pc_step.cases)
    (auto simp: pc_step_simps registered_def waking_def split: pc_step_splits)

lemma pc_step_awaiting:
  "pc_step ty i c t (cl_pc c) ev = Some (c', t') \<Longrightarrow> cl_pc c' = Awaiting \<Longrightarrow>
     th_result t' = None"
  by (cases "(ty, i, c, t, cl_pc c, ev)" rule: pc_step.cases)
    (auto simp: pc_step_simps split: pc_step_splits)

lemma pc_step_settles:
  "pc_step ty i c t (cl_pc c) ev = Some (c', t') \<Longrightarrow> th_result t = None \<Longrightarrow> th_result t' \<noteq> None \<Longrightarrow>
     waking c'"
  by (cases "(ty, i, c, t, cl_pc c, ev)" rule: pc_step.cases)
    (auto simp: pc_step_simps waking_def split: pc_step_splits)

lemma steps_wake_ok:
  assumes "proto_steps ty w0 w" "cf_calls w0 = (\<lambda>_. None)"
  shows "wake_ok w"
  using assms
proof (induction rule: proto_steps_induct)
  case (arrival w i task ms path)
  let ?w' = "arrive i (new_call task ms path) w"
  show ?case unfolding wake_ok_def
  proof (intro impI)
    assume "th_result (cf_thunk ?w') \<noteq> None" "\<exists>j. asleep ?w' j"
    then obtain j where "th_result (cf_thunk w) \<noteq> None" "asleep w j"
      by (auto simp: asleep_def arrive_def new_call_def split: if_splits)
    then obtain k d where k: "cf_calls w k = Some d" "waking d"
      using arrival.IH [OF arrival.prems] by (auto simp: wake_ok_def)
    then have "k \<noteq> i" using arrival.hyps(2) by auto
    then show "\<exists>k d. cf_calls ?w' k = Some d \<and> waking d" using k by (auto simp: arrive_def)
  qed
next
  case (move w i ev c c' t')
  let ?w' = "\<lparr>cf_thunk = t', cf_calls = (cf_calls w)(i \<mapsto> c'),
    cf_claims = cf_claims w + claimed_by c (cf_thunk w), cf_resets = cf_resets w + reset_by ev,
    cf_ends = cf_ends w @ ended_by ev (cf_thunk w)\<rparr>"
  show ?case unfolding wake_ok_def
  proof (intro impI)
    assume "th_result (cf_thunk ?w') \<noteq> None" "\<exists>j. asleep ?w' j"
    then obtain j where settled: "th_result t' \<noteq> None" and j: "asleep ?w' j" by auto
    have "j \<noteq> i" using j settled pc_step_awaiting [OF move.hyps(3)] by (auto simp: asleep_def)
    then have "asleep w j" and reg: "registered j t'"
      using j pc_step_registered [OF move.hyps(3)] by (auto simp: asleep_def)
    show "\<exists>k d. cf_calls ?w' k = Some d \<and> waking d"
    proof (cases "th_result (cf_thunk w) = None")
      case True
      then show ?thesis using pc_step_settles [OF move.hyps(3)] settled by auto
    next
      case False
      then obtain k d where k: "cf_calls w k = Some d" "waking d"
        using move.IH [OF move.prems] \<open>asleep w j\<close> by (auto simp: wake_ok_def)
      show ?thesis
      proof (cases "k = i")
        case True
        then show ?thesis using k move.hyps(2) pc_step_waking [OF move.hyps(3)] reg by auto
      next
        case False
        then show ?thesis using k by auto
      qed
    qed
  qed
qed (simp add: wake_ok_def asleep_def)

text \<open>
  C5: No wake-up is lost: while a call sleeps on a thunk that is settled, some call is between
  its store and its wake-up, which wakes every sleeper.
\<close>

theorem no_lost_wakeup:
  assumes "proto_reach ty t0 w" "is_settled (cf_thunk w)" "asleep w i"
  shows "\<exists>j d. cf_calls w j = Some d \<and> waking d"
  using steps_wake_ok [OF assms(1) [unfolded proto_reach_def]] assms(2,3)
  by (auto simp: wake_ok_def start_config_def is_settled_def)

theorem no_lost_wakeup_witness:
  "\<exists>j d. cf_calls (demo_final 13) j = Some d \<and> waking d"
proof (rule no_lost_wakeup [OF run_schedule_reach [OF demo_runs(2)], of 1])
  show "is_settled (cf_thunk (demo_final 13))" by (simp add: is_settled_def demo_final_def demo_defs)
  show "asleep (demo_final 13) 1" by (simp add: asleep_def demo_final_def demo_defs)
qed

section \<open>No deadlock\<close>

definition final_call :: "'p call \<Rightarrow> bool" where
  "final_call c = (case cl_pc c of Returned _ \<Rightarrow> True | Unwound \<Rightarrow> True | _ \<Rightarrow> False)"

text \<open>A call that will settle an unsettled thunk, or claim it again after its reset.\<close>

definition responsible :: "('x, 'n, 'c, 'p) thunk \<Rightarrow> 'p call \<Rightarrow> bool" where
  "responsible t c =
     (case cl_pc c of
        Evaluating \<Rightarrow> True
      | Store _ _ \<Rightarrow> True
      | CheckResult \<Rightarrow> cl_forcing c \<noteq> None \<and> th_state t \<noteq> None
      | TryClaim \<Rightarrow> cl_forcing c \<noteq> None \<and> th_state t \<noteq> None
      | _ \<Rightarrow> False)"

definition before_claim :: "'p call \<Rightarrow> bool" where
  "before_claim c = (case cl_pc c of CheckResult \<Rightarrow> True | TryClaim \<Rightarrow> True | _ \<Rightarrow> False)"

definition live_ok :: "('x, 'n, 'c, 'p) config \<Rightarrow> bool" where
  "live_ok w \<longleftrightarrow>
     th_result (cf_thunk w) = None \<longrightarrow>
       (\<exists>j d. cf_calls w j = Some d \<and> responsible (cf_thunk w) d)
       \<or> th_state (cf_thunk w) \<noteq> None \<and> (\<forall>j d. cf_calls w j = Some d \<longrightarrow> before_claim d)"

lemma pc_step_responsible:
  "pc_step ty i c t (cl_pc c) ev = Some (c', t') \<Longrightarrow> th_result t' = None \<Longrightarrow>
     responsible t c \<Longrightarrow> responsible t' c'"
  by (cases "(ty, i, c, t, cl_pc c, ev)" rule: pc_step.cases)
    (auto simp: pc_step_simps responsible_def once_set_def split: pc_step_splits)

lemma pc_step_keeps_responsible:
  "pc_step ty i c t (cl_pc c) ev = Some (c', t') \<Longrightarrow> responsible t d \<Longrightarrow>
     responsible t' d \<or> responsible t' c'"
  by (cases "(ty, i, c, t, cl_pc c, ev)" rule: pc_step.cases)
    (auto simp: pc_step_simps responsible_def split: pc_step_splits pc.splits)

lemma pc_step_before_claim:
  "pc_step ty i c t (cl_pc c) ev = Some (c', t') \<Longrightarrow> before_claim c \<Longrightarrow> th_state t \<noteq> None \<Longrightarrow>
     th_result t = None \<Longrightarrow> responsible t' c' \<or> before_claim c' \<and> th_state t' \<noteq> None"
  by (cases "(ty, i, c, t, cl_pc c, ev)" rule: pc_step.cases)
    (auto simp: pc_step_simps responsible_def before_claim_def split: pc_step_splits)

lemma steps_live_ok:
  assumes "proto_steps ty w0 w" "cf_calls w0 = (\<lambda>_. None)" "th_state (cf_thunk w0) \<noteq> None"
  shows "live_ok w"
  using assms
proof (induction rule: proto_steps_induct)
  case (arrival w i task ms path)
  then have "live_ok w" by simp
  then consider "th_result (cf_thunk w) \<noteq> None"
    | j d where "cf_calls w j = Some d" "responsible (cf_thunk w) d"
    | "th_state (cf_thunk w) \<noteq> None" "\<forall>j d. cf_calls w j = Some d \<longrightarrow> before_claim d"
    by (auto simp: live_ok_def)
  then show ?case
  proof cases
    case 2
    then have "j \<noteq> i" using arrival.hyps(2) by auto
    then show ?thesis using 2 by (auto simp: live_ok_def arrive_def)
  qed (auto simp: live_ok_def arrive_def new_call_def before_claim_def)
next
  case (move w i ev c c' t')
  then have "live_ok w" by simp
  then consider "th_result (cf_thunk w) \<noteq> None"
    | j d where "th_result (cf_thunk w) = None" "cf_calls w j = Some d" "responsible (cf_thunk w) d"
    | "th_result (cf_thunk w) = None" "th_state (cf_thunk w) \<noteq> None"
        "\<forall>j d. cf_calls w j = Some d \<longrightarrow> before_claim d"
    by (auto simp: live_ok_def)
  then show ?case
  proof cases
    case 1
    then show ?thesis using pc_step_result_stable [OF move.hyps(3)] by (auto simp: live_ok_def)
  next
    case (2 j d)
    then show ?thesis
      using move.hyps(2) pc_step_responsible [OF move.hyps(3)] pc_step_keeps_responsible [OF move.hyps(3), of d]
      by (cases "j = i") (auto simp: live_ok_def)
  next
    case 3
    then show ?thesis
      using move.hyps(2) pc_step_before_claim [OF move.hyps(3)] by (auto simp: live_ok_def)
  qed
qed (simp add: live_ok_def)

lemma can_move:
  assumes "cf_calls w i = Some c" "pc_step ty i c (cf_thunk w) (cl_pc c) ev \<noteq> None"
  shows "\<exists>w'. advance_call ty i ev w = Some w'"
  using assms by (auto simp: advance_call_def call_step_def)

lemma awake_call_moves:
  assumes "cf_calls w i = Some c" "\<not> final_call c" "\<not> asleep w i"
  shows "\<exists>ev w'. advance_call ty i ev w = Some w'"
proof -
  have "pc_step ty i c (cf_thunk w) (cl_pc c) Tick \<noteq> None
    \<or> pc_step ty i c (cf_thunk w) (cl_pc c) Panic \<noteq> None"
    using assms by (cases "cl_pc c") (auto simp: final_call_def asleep_def)
  then show ?thesis using can_move [OF assms(1)] by blast
qed



end
