(* ===== verification/Thunk_Cycles.thy ===== *)
theory Thunk_Cycles
  imports Thunk_Properties
begin

text \<open>
  Cycle detection in the forcing protocol: calls on tasks with ids of their own get the outcome
  of an evaluation and never a cycle error, and a task that forces a thunk it is evaluating
  itself gets the cycle error instead of sleeping. Two executions show the limits: a call
  without a task id can report a cycle that is not there, and a placeholder forced by a task
  is waited for forever.
\<close>

section \<open>Tasks with ids of their own\<close>

definition own_tasks :: "('x, 'n, 'c, 'p) config \<Rightarrow> bool" where
  "own_tasks w \<longleftrightarrow>
     (\<forall>i c. cf_calls w i = Some c \<longrightarrow> cl_task c \<noteq> None
        \<and> (\<forall>j d. cf_calls w j = Some d \<longrightarrow> cl_task d = cl_task c \<longrightarrow> j = i))"

definition owns :: "'p call \<Rightarrow> bool" where
  "owns c = (case cl_pc c of Evaluating \<Rightarrow> True | Store _ _ \<Rightarrow> True | Clear _ _ \<Rightarrow> True | _ \<Rightarrow> False)"

definition no_cycle_pc :: "'p outcome set \<Rightarrow> ('p, 'x) type_api \<Rightarrow> ('x, 'n, 'c, 'p) thunk \<Rightarrow> 'p call \<Rightarrow> bool" where
  "no_cycle_pc ends ty t c =
     (case cl_pc c of
        Store r a \<Rightarrow> a \<notin> {Ret, Back} \<and> r \<in> ends
      | Clear r a \<Rightarrow> a \<notin> {Ret, Back} \<and> r \<in> ends
      | Wake r a \<Rightarrow> a \<notin> {Ret, Back} \<and> r \<in> ends
      | Returned dr \<Rightarrow> (\<exists>r. th_result t = Some r \<and> dr_result dr = dr_result (returned (cl_span c) r))
      | _ \<Rightarrow> True)"

definition own_ok :: "('p, 'x) type_api \<Rightarrow> ('x, 'n, 'c, 'p) config \<Rightarrow> bool" where
  "own_ok ty w \<longleftrightarrow>
     (\<forall>x. th_owner (cf_thunk w) = Some x \<longrightarrow>
        (\<exists>i c. cf_calls w i = Some c \<and> cl_task c = Some x \<and> owns c))
     \<and> (\<forall>i c. cf_calls w i = Some c \<longrightarrow> no_cycle_pc (set (cf_ends w)) ty (cf_thunk w) c)
     \<and> (\<forall>r. th_result (cf_thunk w) = Some r \<longrightarrow>
          r \<in> typed_outcome ty (cf_thunk w) ` set (cf_ends w))"

lemma pc_step_owner:
  "pc_step ty i c t (cl_pc c) ev = Some (c', t') \<Longrightarrow>
     th_owner t' = None
     \<or> th_owner t' = cl_task c \<and> owns c'
     \<or> th_owner t' = th_owner t \<and> (owns c \<longrightarrow> owns c')"
  by (cases "(ty, i, c, t, cl_pc c, ev)" rule: pc_step.cases)
    (auto simp: pc_step_simps owns_def split: pc_step_splits)

lemma pc_step_no_cycle:
  assumes "pc_step ty i c t (cl_pc c) ev = Some (c', t')" "no_cycle_pc ends ty t c"
    and "cl_pc c = ReadOwner \<Longrightarrow> th_owner t \<noteq> cl_task c"
  shows "no_cycle_pc (ends \<union> set (ended_by ev t)) ty t' c'"
  using assms
  by (cases "(ty, i, c, t, cl_pc c, ev)" rule: pc_step.cases)
    (auto simp: pc_step_simps no_cycle_pc_def ended_by_def with_diagnostics_def same_task_def
      split: pc_step_splits)

lemma no_cycle_pc_mono:
  assumes "no_cycle_pc ends ty t c" "ends \<subseteq> ends'"
    and "\<And>r. th_result t = Some r \<Longrightarrow> th_result t' = Some r"
  shows "no_cycle_pc ends' ty t' c"
  using assms unfolding no_cycle_pc_def by (cases "cl_pc c") auto

lemma typed_outcome_cong:
  "th_type_inst t' = th_type_inst t \<Longrightarrow> th_inferred_type t' = th_inferred_type t \<Longrightarrow>
     typed_outcome ty t' = typed_outcome ty t"
  by (rule ext) (simp add: typed_outcome_def split: sum.splits)

lemma own_tasks_back:
  assumes "own_tasks w'"
    and "\<And>i c. cf_calls w i = Some c \<Longrightarrow> \<exists>c'. cf_calls w' i = Some c' \<and> cl_task c' = cl_task c"
  shows "own_tasks w"
  unfolding own_tasks_def
proof (intro allI impI conjI)
  fix i c assume c: "cf_calls w i = Some c"
  then show "cl_task c \<noteq> None" using assms by (metis own_tasks_def)
  fix j d assume "cf_calls w j = Some d" "cl_task d = cl_task c"
  then show "j = i" using assms c by (metis own_tasks_def)
qed

lemma steps_own_ok:
  assumes "proto_steps ty w0 w" "cf_calls w0 = (\<lambda>_. None)" "th_owner (cf_thunk w0) = None"
    "th_result (cf_thunk w0) = None" "own_tasks w"
  shows "own_ok ty w"
  using assms
proof (induction rule: proto_steps_induct)
  case (arrival w i task ms path)
  let ?w' = "arrive i (new_call task ms path) w"
  have keeps: "cf_calls ?w' j = Some c" if "cf_calls w j = Some c" for j c
    using that arrival.hyps(2) by (auto simp: arrive_def)
  then have "own_tasks w" by (intro own_tasks_back [OF arrival.prems(4)]) blast
  then have ok: "own_ok ty w" using arrival by simp
  show ?case unfolding own_ok_def
  proof (intro conjI allI impI)
    fix x assume "th_owner (cf_thunk ?w') = Some x"
    then obtain j c where "cf_calls w j = Some c" "cl_task c = Some x \<and> owns c"
      using ok by (auto simp: own_ok_def arrive_def)
    then show "\<exists>j c. cf_calls ?w' j = Some c \<and> cl_task c = Some x \<and> owns c" using keeps by blast
  next
    fix j c assume "cf_calls ?w' j = Some c"
    then show "no_cycle_pc (set (cf_ends ?w')) ty (cf_thunk ?w') c"
      using ok by (auto simp: own_ok_def arrive_def new_call_def no_cycle_pc_def split: if_splits)
  next
    fix r assume "th_result (cf_thunk ?w') = Some r"
    then show "r \<in> typed_outcome ty (cf_thunk ?w') ` set (cf_ends ?w')"
      using ok by (simp add: own_ok_def arrive_def)
  qed
next
  case (move w i ev c c' t')
  note step = move.hyps(3)
  have task: "cl_task c' = cl_task c" using pc_step_call_keeps [OF step] by simp
  have own: "own_tasks w"
    by (rule own_tasks_back [OF move.prems(4)]) (use move.hyps(2) task in auto)
  then have ok: "own_ok ty w" using move by simp
  have reads: "th_owner (cf_thunk w) \<noteq> cl_task c" if "cl_pc c = ReadOwner"
  proof
    assume eq: "th_owner (cf_thunk w) = cl_task c"
    moreover have "cl_task c \<noteq> None" using own move.hyps(2) unfolding own_tasks_def by blast
    ultimately obtain x where "th_owner (cf_thunk w) = Some x" "cl_task c = Some x" by auto
    then obtain k d where "cf_calls w k = Some d" "cl_task d = Some x" "owns d"
      using ok by (auto simp: own_ok_def)
    then have "d = c" using own move.hyps(2) \<open>cl_task c = Some x\<close> unfolding own_tasks_def by fastforce
    then show False using \<open>owns d\<close> that by (simp add: owns_def)
  qed
  let ?ends = "set (cf_ends w @ ended_by ev (cf_thunk w))"
  have pcs: "no_cycle_pc ?ends ty t' d" if "((cf_calls w)(i \<mapsto> c')) j = Some d" for j d
  proof (cases "j = i")
    case True
    have "no_cycle_pc (set (cf_ends w)) ty (cf_thunk w) c" using ok move.hyps(2) by (simp add: own_ok_def)
    then show ?thesis using pc_step_no_cycle [OF step _ reads] that True by simp
  next
    case False
    then have "no_cycle_pc (set (cf_ends w)) ty (cf_thunk w) d" using ok that by (simp add: own_ok_def)
    then show ?thesis by (rule no_cycle_pc_mono) (auto intro: pc_step_result_stable [OF step])
  qed
  have owner: "\<exists>j d. ((cf_calls w)(i \<mapsto> c')) j = Some d \<and> cl_task d = Some x \<and> owns d"
    if x: "th_owner t' = Some x" for x
    using pc_step_owner [OF step]
  proof (elim disjE conjE)
    assume same: "th_owner t' = th_owner (cf_thunk w)" "owns c \<longrightarrow> owns c'"
    from x same(1) have "th_owner (cf_thunk w) = Some x" by simp
    then obtain k d where k: "cf_calls w k = Some d" "cl_task d = Some x" "owns d"
      using ok unfolding own_ok_def by blast
    show ?thesis
    proof (cases "k = i")
      case True
      then show ?thesis using k move.hyps(2) task same(2) by auto
    next
      case False
      then show ?thesis using k by auto
    qed
  qed (use x task in auto)
  have typed: "typed_outcome ty t' = typed_outcome ty (cf_thunk w)"
    by (rule typed_outcome_cong) (simp_all add: pc_step_thunk_keeps [OF step])
  have result: "r \<in> typed_outcome ty t' ` ?ends" if r: "th_result t' = Some r" for r
  proof (cases "th_result (cf_thunk w)")
    case None
    then obtain s a where "cl_pc c = Store s a" "r = typed_outcome ty (cf_thunk w) s"
      using pc_step_result [OF step] r by (auto simp: settle_store_result split: pc.splits)
    moreover have "no_cycle_pc (set (cf_ends w)) ty (cf_thunk w) c"
      using ok move.hyps(2) by (simp add: own_ok_def)
    ultimately show ?thesis unfolding typed by (auto simp: no_cycle_pc_def)
  next
    case (Some r')
    then have "r = r'" using pc_step_result_stable [OF step Some] r by simp
    then show ?thesis using ok Some unfolding typed by (auto simp: own_ok_def)
  qed
  show ?case unfolding own_ok_def using pcs owner result by simp
qed (simp add: own_ok_def)

text \<open>
  C7: When every call runs on a task with an id of its own, no cycle is reported that is not
  there: a call that returns gives the stored result, and the stored result is what one of the
  thunk's evaluations ended with.
\<close>

theorem own_tasks_no_spurious_cycle:
  assumes "proto_reach ty t0 w" "th_owner t0 = None" "th_result t0 = None" "own_tasks w"
    and "cf_calls w i = Some c" "cl_pc c = Returned dr"
  shows "\<exists>r \<in> set (cf_ends w).
    th_result (cf_thunk w) = Some (typed_outcome ty t0 r)
    \<and> dr_result dr = dr_result (returned (cl_span c) (typed_outcome ty t0 r))"
proof -
  note steps = assms(1) [unfolded proto_reach_def]
  have ok: "own_ok ty w" by (rule steps_own_ok [OF steps]) (simp_all add: start_config_def assms)
  have typed: "typed_outcome ty (cf_thunk w) = typed_outcome ty t0"
    using steps_thunk_keeps [OF steps] by (intro typed_outcome_cong) (simp_all add: start_config_def)
  from ok assms(5) have "no_cycle_pc (set (cf_ends w)) ty (cf_thunk w) c" by (simp add: own_ok_def)
  with assms(6) obtain r where "th_result (cf_thunk w) = Some r" "dr_result dr = dr_result (returned (cl_span c) r)"
    by (auto simp: no_cycle_pc_def)
  then show ?thesis using ok unfolding own_ok_def typed by auto
qed

section \<open>A task that forces its own thunk\<close>

text \<open>
  C8: A call of the task that is evaluating the thunk, or a second call under \<open>block_on\<close>,
  does not sleep: in its own seven steps it settles the thunk with the cycle error and
  returns it.
\<close>

theorem self_force_reported:
  assumes "th_result (cf_thunk w) = None" "th_state (cf_thunk w) = None" "th_owner (cf_thunk w) = task"
    and "cf_calls w j = Some (new_call task ms (Some path))"
  shows "\<exists>w' c dr. run_schedule ty (replicate 7 (Moves j Tick)) w = Some w'
    \<and> cf_calls w' j = Some c \<and> cl_pc c = Returned dr
    \<and> dr_result dr = Inl (cycle_error (th_span (cf_thunk w)) path)
    \<and> th_result (cf_thunk w') = Some (Inl (cycle_error (th_span (cf_thunk w)) path))"
proof -
  have same: "same_task task task" by (simp add: same_task_def split: option.splits)
  show ?thesis
    using assms
    by (simp add: eval_nat_numeral advance_call_def call_step_def new_call_def pc_step_simps same
        once_set_def typed_outcome_def with_diagnostics_def dr_err_def)
qed

section \<open>Witnesses\<close>

theorem own_tasks_no_spurious_cycle_witness:
  "th_result (cf_thunk (demo_final 21)) = Some (typed_outcome demo_types demo_thunk (Inr (Tagged 7 None)))"
proof -
  have "own_tasks (demo_final 21)"
    by (auto simp: own_tasks_def demo_final_def demo_defs)
  moreover obtain c where "cf_calls (demo_final 21) 1 = Some c" "cl_pc c = Returned (dr_ok demo_value)"
    by (simp add: demo_final_def demo_defs)
  ultimately show ?thesis
    using own_tasks_no_spurious_cycle [OF run_schedule_reach [OF demo_runs(1)], of 1 c "dr_ok demo_value"]
    by (simp add: demo_final_def demo_defs)
qed

theorem self_force_reported_witness:
  "\<exists>w' c dr. run_schedule demo_types (replicate 7 (Moves 2 Tick))
      (arrive 2 (new_call (Some 1) None (Some [])) (demo_final 4)) = Some w'
    \<and> cf_calls w' 2 = Some c \<and> cl_pc c = Returned dr
    \<and> dr_result dr = Inl (cycle_error (span_new 1 1 1 2 []) [])
    \<and> th_result (cf_thunk w') = Some (Inl (cycle_error (span_new 1 1 1 2 []) []))"
proof -
  let ?w = "arrive 2 (new_call (Some 1) None (Some [])) (demo_final 4)"
  have "th_span (cf_thunk ?w) = span_new 1 1 1 2 []"
    by (simp add: demo_final_def demo_defs)
  then show ?thesis
    using self_force_reported [of ?w "Some 1" 2 None "[]" demo_types]
    by (simp add: demo_final_def arrive_def) (simp add: demo_defs)
qed

section \<open>Limits\<close>

text \<open>
  The evaluator runs on a task; a call under \<open>block_on\<close> reads the result before it is stored
  and the task id after it is cleared. It finds no id, has none itself, and returns a cycle
  error although the thunk has a value.
\<close>

lemma spurious_cycle:
  "\<exists>w c dr. proto_reach demo_types demo_thunk w
    \<and> th_result (cf_thunk w) = Some (Inr demo_value)
    \<and> cf_calls w 1 = Some c \<and> cl_pc c = Returned dr
    \<and> dr_result dr = Inl (cycle_error (th_span demo_thunk) [])"
proof -
  let ?schedule = "[Arrives 0 (new_call (Some 1) None None), Arrives 1 (new_call None None (Some [])),
     Moves 0 Tick, Moves 0 Tick, Moves 1 Tick, Moves 1 Tick, Moves 1 Tick,
     Moves 0 (Finish (Inr (Tagged 7 None)) [] True), Moves 0 Tick, Moves 0 Tick,
     Moves 1 Tick, Moves 1 Tick, Moves 1 Tick, Moves 1 Tick]"
  obtain w where w: "run_schedule demo_types ?schedule (start_config demo_thunk) = Some w"
    and "th_result (cf_thunk w) = Some (Inr demo_value)"
    and "\<exists>c dr. cf_calls w 1 = Some c \<and> cl_pc c = Returned dr
      \<and> dr_result dr = Inl (cycle_error (th_span demo_thunk) [])"
    by (simp add: demo_defs)
  then show ?thesis using run_schedule_reach [OF w] by blast
qed

text \<open>
  A placeholder that is forced by a task before its slot is filled is neither a cycle nor an
  evaluation: the call sleeps and nothing is left to wake it.
\<close>

lemma placeholder_never_wakes:
  "\<exists>w c. proto_reach demo_types
        (placeholder demo_types (span_new 1 1 1 2 []) :: (nat, nat, nat, nat) thunk) w
    \<and> cf_calls w 0 = Some c \<and> cl_pc c = Awaiting
    \<and> (\<forall>i ev. advance_call demo_types i ev w = None)"
proof -
  let ?schedule = "[Arrives 0 (new_call (Some 1) None None),
     Moves 0 Tick, Moves 0 Tick, Moves 0 Tick, Moves 0 Tick, Moves 0 Tick, Moves 0 Tick]"
  let ?t = "placeholder demo_types (span_new 1 1 1 2 []) :: (nat, nat, nat, nat) thunk"
  obtain w where w: "run_schedule demo_types ?schedule (start_config ?t) = Some w"
    and c: "\<exists>c. cf_calls w 0 = Some c \<and> cl_pc c = Awaiting"
    and others: "\<forall>i. i \<noteq> 0 \<longrightarrow> cf_calls w i = None" and reg: "registered 0 (cf_thunk w)"
    by (simp add: placeholder_def demo_defs)
  have "advance_call demo_types i ev w = None" for i ev
    using c others reg by (cases "i = 0"; cases ev) (auto simp: advance_call_def call_step_def)
  then show ?thesis using run_schedule_reach [OF w] c by blast
qed

end
