(* ===== verification/Type_Value.thy ===== *)
theory Type_Value
  imports Hashable_Value
begin

text \<open>
  Types as the checker sees them: a \<open>TypeValue\<close> is a \<open>Value::Variant\<close> whose constructor
  index says what it is (\<^verbatim>\<open>src/type_tags.rs\<close>) and whose payload is a dictionary. The file
  has the part of \<open>Value\<close> such trees are made of, the readers and builders of payloads at the
  head of \<^verbatim>\<open>src/bas.rs\<close>, the structural fingerprint and the unfolding of recursive types.
  The thunks inside a type value are always settled, so a thunk is its value; a shared
  pointer is its content, and where the code tests pointers for equality to see whether a copy
  was changed, the model returns an option that is \<open>None\<close> when nothing changed.
\<close>

section \<open>Values and constructor indices\<close>

datatype tyval =
  TVariant u64 nat "tyval option"
| TDict "(hashable_value \<times> tyval) list"
| TInt int
| TU64 u64
| TFloat f64
| TStr str
| TOther nat

abbreviation TV_PHANTOM :: nat where "TV_PHANTOM \<equiv> 1"
abbreviation TV_VAR :: nat where "TV_VAR \<equiv> 2"
abbreviation TV_FN :: nat where "TV_FN \<equiv> 3"
abbreviation TV_APP :: nat where "TV_APP \<equiv> 4"
abbreviation TV_RECORD :: nat where "TV_RECORD \<equiv> 6"
abbreviation TV_UNION :: nat where "TV_UNION \<equiv> 7"
abbreviation TV_INTER :: nat where "TV_INTER \<equiv> 8"
abbreviation TV_NEG :: nat where "TV_NEG \<equiv> 9"
abbreviation TV_INT_LIT :: nat where "TV_INT_LIT \<equiv> 11"
abbreviation TV_FLOAT_LIT :: nat where "TV_FLOAT_LIT \<equiv> 12"
abbreviation TV_STR_LIT :: nat where "TV_STR_LIT \<equiv> 13"
abbreviation TV_RECURSIVE :: nat where "TV_RECURSIVE \<equiv> 14"
abbreviation TV_RECURSIVE_REF :: nat where "TV_RECURSIVE_REF \<equiv> 15"
abbreviation TV_NOMINAL_VARIANT :: nat where "TV_NOMINAL_VARIANT \<equiv> 16"
abbreviation TV_UNKNOWN :: nat where "TV_UNKNOWN \<equiv> 17"
abbreviation TV_NEVER :: nat where "TV_NEVER \<equiv> 18"
abbreviation TV_TOP :: nat where "TV_TOP \<equiv> 19"
abbreviation TV_STAGE_APP :: nat where "TV_STAGE_APP \<equiv> 20"
abbreviation TV_ERROR :: nat where "TV_ERROR \<equiv> 21"
abbreviation TV_NOMINAL :: nat where "TV_NOMINAL \<equiv> 22"
abbreviation RT_CLOSED :: nat where "RT_CLOSED \<equiv> 0"
abbreviation RT_VAR :: nat where "RT_VAR \<equiv> 1"
abbreviation RT_UNIFORM :: nat where "RT_UNIFORM \<equiv> 2"

abbreviation TYPE_ID_INT :: u64 where "TYPE_ID_INT \<equiv> 1"
abbreviation TYPE_ID_FLOAT :: u64 where "TYPE_ID_FLOAT \<equiv> 3"
abbreviation TYPE_ID_STRING :: u64 where "TYPE_ID_STRING \<equiv> 4"
abbreviation TYPE_ID_TYPE_VALUE :: u64 where "TYPE_ID_TYPE_VALUE \<equiv> 50"

datatype variance = Covariant | Contravariant | Invariant | Phantom_Param

record tycon_def =
  td_body :: tyval
  td_variance :: "variance list"
  td_constructors :: "(str \<times> nat) list"

type_synonym tycon_env = "u64 \<rightharpoonup> tycon_def"

definition typevalue_ctor_index :: "tyval \<Rightarrow> nat option" where
  "typevalue_ctor_index tv = (case tv of TVariant _ c _ \<Rightarrow> Some c | _ \<Rightarrow> None)"

definition ctor_display_name :: "u64 \<Rightarrow> nat \<Rightarrow> tycon_env \<Rightarrow> str" where
  "ctor_display_name type_decl_id ctor_index env =
     (case Option.bind (env type_decl_id) (\<lambda>def. nth_opt (td_constructors def) ctor_index) of
        Some (bare_name, _) \<Rightarrow> bare_name
      | None \<Rightarrow> us ''Ctor('' @ nat_to_str (unat type_decl_id) @ us ''.'' @ nat_to_str ctor_index @ us '')'')"

section \<open>Reading payloads\<close>

definition dict_get :: "(hashable_value \<times> 'a) list \<Rightarrow> hashable_value \<Rightarrow> 'a option" where
  "dict_get entries key = map_option snd (find (\<lambda>(k, _). hv_eq key k) entries)"

definition typevalue_payload :: "tyval \<Rightarrow> tyval option" where
  "typevalue_payload tv = (case tv of TVariant _ _ p \<Rightarrow> p | _ \<Rightarrow> None)"

definition payload_field :: "tyval \<Rightarrow> str \<Rightarrow> tyval option" where
  "payload_field payload field =
     (case payload of TDict entries \<Rightarrow> dict_get entries (HStr field) | _ \<Rightarrow> None)"

definition payload_string_field :: "tyval \<Rightarrow> str \<Rightarrow> str option" where
  "payload_string_field payload field =
     (case payload_field payload field of Some (TStr s) \<Rightarrow> Some s | _ \<Rightarrow> None)"

definition payload_int_field :: "tyval \<Rightarrow> str \<Rightarrow> int option" where
  "payload_int_field payload field =
     (case payload_field payload field of Some (TInt n) \<Rightarrow> Some n | _ \<Rightarrow> None)"

definition payload_float_field_bits :: "tyval \<Rightarrow> str \<Rightarrow> f64 option" where
  "payload_float_field_bits payload field =
     (case payload_field payload field of Some (TFloat b) \<Rightarrow> Some b | _ \<Rightarrow> None)"

definition payload_bool_field :: "tyval \<Rightarrow> str \<Rightarrow> bool option" where
  "payload_bool_field payload field =
     (case payload_field payload field of
        Some (TInt n) \<Rightarrow> if n = 1 then Some True else if n = 0 then Some False else None
      | _ \<Rightarrow> None)"

definition payload_typevalue_field :: "tyval \<Rightarrow> str \<Rightarrow> tyval option" where
  "payload_typevalue_field payload field = payload_field payload field"

text \<open>The entries with integer keys, in the order of the keys.\<close>

definition indexed_values :: "(hashable_value \<times> tyval) list \<Rightarrow> tyval list" where
  "indexed_values entries =
     map snd (sort_key fst (List.map_filter
       (\<lambda>(k, v). case k of HInt i \<Rightarrow> Some (i, v) | _ \<Rightarrow> None) entries))"

definition collect_indexed_typevalues :: "tyval \<Rightarrow> tyval list" where
  "collect_indexed_typevalues tv = (case tv of TDict entries \<Rightarrow> indexed_values entries | _ \<Rightarrow> [])"

definition payload_members :: "tyval \<Rightarrow> tyval list" where
  "payload_members payload =
     (case payload_field payload (us ''members'') of
        Some (TDict entries) \<Rightarrow> indexed_values entries
      | _ \<Rightarrow> [])"

definition typevalue_nominal_id :: "tyval \<Rightarrow> u64 option" where
  "typevalue_nominal_id v =
     (if typevalue_ctor_index v \<noteq> Some TV_NOMINAL then None
      else case typevalue_payload v of
        Some (TDict entries) \<Rightarrow>
          (case dict_get entries (HStr (us ''id'')) of
             Some (TU64 n) \<Rightarrow> Some n
           | Some (TInt n) \<Rightarrow> Some (word_of_int n)
           | _ \<Rightarrow> None)
      | _ \<Rightarrow> None)"

definition nominal_variant_tycon :: "tyval \<Rightarrow> u64 option" where
  "nominal_variant_tycon tv =
     map_option word_of_int (Option.bind (typevalue_payload tv) (\<lambda>p. payload_int_field p (us ''tycon'')))"

definition nominal_variant_ctor :: "tyval \<Rightarrow> u32 option" where
  "nominal_variant_ctor tv =
     map_option word_of_int (Option.bind (typevalue_payload tv) (\<lambda>p. payload_int_field p (us ''ctor'')))"

section \<open>Sizes\<close>

lemma size_entry: "(k, v) \<in> set es \<Longrightarrow> size v < size (TDict es)"
  using size_list_estimation' [of "(k, v)" es "size v" "size_prod (\<lambda>_. 0) size"]
  by (simp add: less_Suc_eq_le)

lemma size_dict_get: "dict_get es k = Some v \<Longrightarrow> size v < size (TDict es)"
  unfolding dict_get_def by (auto dest!: find_in size_entry)

lemma size_payload_field: "payload_field p f = Some v \<Longrightarrow> size v < size p"
  unfolding payload_field_def by (auto dest: size_dict_get split: tyval.splits)

lemma size_payload: "typevalue_payload tv = Some p \<Longrightarrow> size p < size tv"
  unfolding typevalue_payload_def by (auto split: tyval.splits)

lemma indexed_values_in: "v \<in> set (indexed_values es) \<Longrightarrow> \<exists>k. (k, v) \<in> set es"
  unfolding indexed_values_def
  by (auto simp: List.map_filter_def split: hashable_value.splits)

lemma size_indexed: "v \<in> set (indexed_values es) \<Longrightarrow> size v < size (TDict es)"
  by (metis indexed_values_in size_entry)

lemma size_members: "m \<in> set (payload_members p) \<Longrightarrow> size m < size p"
  unfolding payload_members_def
  by (auto split: option.splits tyval.splits dest: size_payload_field [OF sym] size_payload_field
      intro: less_trans [OF size_indexed])

lemma size_collect: "m \<in> set (collect_indexed_typevalues p) \<Longrightarrow> size m < size p"
  unfolding collect_indexed_typevalues_def by (auto split: tyval.splits dest!: size_indexed)

lemma size_typevalue_field: "payload_typevalue_field p f = Some v \<Longrightarrow> size v < size p"
  unfolding payload_typevalue_field_def by (rule size_payload_field)

section \<open>Building types\<close>

definition make_payload_typevalue :: "u64 \<Rightarrow> nat \<Rightarrow> tyval \<Rightarrow> tyval" where
  "make_payload_typevalue type_decl_id ctor_index payload = TVariant type_decl_id ctor_index (Some payload)"

definition make_payload :: "(str \<times> tyval) list \<Rightarrow> tyval" where
  "make_payload fs = TDict (map (\<lambda>(k, v). (HStr k, v)) fs)"

definition build_members_typevalue :: "u64 \<Rightarrow> nat \<Rightarrow> tyval list \<Rightarrow> tyval" where
  "build_members_typevalue type_decl_id ctor_index members =
     make_payload_typevalue type_decl_id ctor_index
       (TDict [(HStr (us ''members''), TDict (map (\<lambda>(i, m). (HInt (int i), m)) (enumerate 0 members)))])"

definition make_typevalue_nominal :: "u64 \<Rightarrow> tyval" where
  "make_typevalue_nominal i = TVariant TYPE_ID_TYPE_VALUE TV_NOMINAL (Some (TDict [(HStr (us ''id''), TU64 i)]))"

lemma indexed_enumerate:
  "indexed_values (map (\<lambda>(i, m). (HInt (int i), m)) (enumerate n ms)) = ms"
proof -
  have filter: "List.map_filter (\<lambda>(k, v). case k of HInt i \<Rightarrow> Some (i, v) | _ \<Rightarrow> None)
      (map (\<lambda>(i, m). (HInt (int i), m)) (enumerate n ms)) = map (\<lambda>(i, m). (int i, m)) (enumerate n ms)"
    by (induction ms arbitrary: n) (simp_all add: List.map_filter_def)
  have "sorted (map fst (map (\<lambda>(i, m). (int i, m)) (enumerate n ms)))"
    by (auto simp: enumerate_eq_zip sorted_iff_nth_mono)
  then have "sort_key fst (map (\<lambda>(i, m). (int i, m)) (enumerate n ms)) = map (\<lambda>(i, m). (int i, m)) (enumerate n ms)"
    by (rule sort_key_id_if_sorted)
  then show ?thesis
    unfolding indexed_values_def filter by (simp add: comp_def case_prod_beta enumerate_eq_zip)
qed

lemma built_members [simp]:
  "typevalue_ctor_index (build_members_typevalue t c ms) = Some c"
  "map_option payload_members (typevalue_payload (build_members_typevalue t c ms)) = Some ms"
  by (simp_all add: build_members_typevalue_def make_payload_typevalue_def typevalue_ctor_index_def
      typevalue_payload_def payload_members_def payload_field_def dict_get_def indexed_enumerate)

lemma nominal_simps [simp]:
  "typevalue_ctor_index (make_typevalue_nominal i) = Some TV_NOMINAL"
  "typevalue_nominal_id (make_typevalue_nominal i) = Some i"
  by (simp_all add: make_typevalue_nominal_def typevalue_ctor_index_def typevalue_nominal_id_def
      typevalue_payload_def dict_get_def)

end
