(* ===== verification/Rdnf.thy ===== *)
theory Rdnf
  imports Type_Value
begin

text \<open>
  The disjunctive normal form of \<^verbatim>\<open>src/bas.rs\<close>: signed atoms, \<open>to_rdnf\<close>, the distribution
  of conjunctions with its limit, and negation. The denotation of a type is given over an
  arbitrary interpretation of its atoms; the lemmas relate it to the normal form: they agree
  as long as no distribution meets the limit, and the normal form is above the type when the
  limit is met outside negations only.
\<close>

section \<open>Normal forms\<close>

datatype signed_atom = Pos tyval | Neg tyval

fun negate_atom :: "signed_atom \<Rightarrow> signed_atom" where
  "negate_atom (Pos a) = Neg a"
| "negate_atom (Neg a) = Pos a"

type_synonym conjunction = "signed_atom list"
type_synonym rdnf = "conjunction list"

definition MAX_RDNF_CONJUNCTIONS :: nat where
  "MAX_RDNF_CONJUNCTIONS = 1024"

definition distribute :: "rdnf \<Rightarrow> rdnf \<Rightarrow> rdnf" where
  "distribute left right =
     (if left = [] \<or> right = [] then []
      else if length left * length right > MAX_RDNF_CONJUNCTIONS then [[]]
      else concat (map (\<lambda>l. map (\<lambda>r. l @ r) right) left))"

fun negate_loop :: "rdnf \<Rightarrow> rdnf \<Rightarrow> rdnf" where
  "negate_loop result [] = result"
| "negate_loop result (c # cs) =
     (if c = [] then [] else negate_loop (distribute result (map (\<lambda>a. [negate_atom a]) c)) cs)"

definition negate_rdnf :: "rdnf \<Rightarrow> rdnf" where
  "negate_rdnf rdnf = (if rdnf = [] then [[]] else negate_loop [[]] rdnf)"

text \<open>
  The members of a union or an intersection, and the type under a negation; \<open>None\<close> when the
  payload has none.
\<close>

definition members_of :: "tyval \<Rightarrow> tyval list option" where
  "members_of tv = map_option payload_members (typevalue_payload tv)"

definition negated_of :: "tyval \<Rightarrow> tyval option" where
  "negated_of tv = Option.bind (typevalue_payload tv) (\<lambda>p. payload_typevalue_field p (us ''of''))"

lemma size_members_of: "members_of tv = Some ms \<Longrightarrow> m \<in> set ms \<Longrightarrow> size m < size tv"
  unfolding members_of_def by (auto dest!: size_payload size_members)

lemma size_negated_of: "negated_of tv = Some v \<Longrightarrow> size v < size tv"
  unfolding negated_of_def by (auto simp: bind_eq_Some_conv dest!: size_payload size_typevalue_field)

function to_rdnf :: "tyval \<Rightarrow> rdnf" where
  "to_rdnf tv =
     (case typevalue_ctor_index tv of
        None \<Rightarrow> [[]]
      | Some c \<Rightarrow>
          if c = TV_TOP then [[]]
          else if c = TV_NEVER then []
          else if c = TV_UNKNOWN then [[]]
          else if c = TV_ERROR then []
          else if c = TV_UNION then
            (case members_of tv of None \<Rightarrow> [] | Some ms \<Rightarrow> concat (map to_rdnf ms))
          else if c = TV_INTER then
            (case members_of tv of
               None \<Rightarrow> [[]]
             | Some [] \<Rightarrow> [[]]
             | Some (m # ms) \<Rightarrow> foldl distribute (to_rdnf m) (map to_rdnf ms))
          else if c = TV_NEG then
            (case negated_of tv of None \<Rightarrow> [[]] | Some inner \<Rightarrow> negate_rdnf (to_rdnf inner))
          else [[Pos tv]])"
  by pat_completeness auto
termination
  by (relation "measure size") (auto dest: size_members_of size_negated_of)

declare to_rdnf.simps [simp del]

section \<open>Denotation\<close>

text \<open>\<open>atom\<close> says which atoms hold of the value at hand.\<close>

function den :: "(tyval \<Rightarrow> bool) \<Rightarrow> tyval \<Rightarrow> bool" where
  "den atom tv =
     (case typevalue_ctor_index tv of
        None \<Rightarrow> True
      | Some c \<Rightarrow>
          if c = TV_TOP \<or> c = TV_UNKNOWN then True
          else if c = TV_NEVER \<or> c = TV_ERROR then False
          else if c = TV_UNION then
            (case members_of tv of None \<Rightarrow> False | Some ms \<Rightarrow> \<exists>m \<in> set ms. den atom m)
          else if c = TV_INTER then
            (case members_of tv of None \<Rightarrow> True | Some ms \<Rightarrow> \<forall>m \<in> set ms. den atom m)
          else if c = TV_NEG then
            (case negated_of tv of None \<Rightarrow> True | Some inner \<Rightarrow> \<not> den atom inner)
          else atom tv)"
  by pat_completeness auto
termination
  by (relation "measure (\<lambda>(_, tv). size tv)") (auto dest: size_members_of size_negated_of)

declare den.simps [simp del]

fun holds :: "(tyval \<Rightarrow> bool) \<Rightarrow> signed_atom \<Rightarrow> bool" where
  "holds atom (Pos a) = atom a"
| "holds atom (Neg a) = (\<not> atom a)"

definition conj_sat :: "(tyval \<Rightarrow> bool) \<Rightarrow> conjunction \<Rightarrow> bool" where
  "conj_sat atom c = list_all (holds atom) c"

definition rdnf_sat :: "(tyval \<Rightarrow> bool) \<Rightarrow> rdnf \<Rightarrow> bool" where
  "rdnf_sat atom r = list_ex (conj_sat atom) r"

lemma holds_negate [simp]: "holds atom (negate_atom a) \<longleftrightarrow> \<not> holds atom a"
  by (cases a) auto

lemma sat_simps [simp]:
  "conj_sat atom []" "conj_sat atom (a # c) \<longleftrightarrow> holds atom a \<and> conj_sat atom c"
  "conj_sat atom (c @ d) \<longleftrightarrow> conj_sat atom c \<and> conj_sat atom d"
  "\<not> rdnf_sat atom []" "rdnf_sat atom (c # r) \<longleftrightarrow> conj_sat atom c \<or> rdnf_sat atom r"
  "rdnf_sat atom (r @ s) \<longleftrightarrow> rdnf_sat atom r \<or> rdnf_sat atom s"
  by (auto simp: conj_sat_def rdnf_sat_def)

lemma sat_concat: "rdnf_sat atom (concat rs) \<longleftrightarrow> (\<exists>r \<in> set rs. rdnf_sat atom r)"
  by (induction rs) auto

section \<open>Distribution and negation\<close>

text \<open>Whether a distribution meets the limit.\<close>

definition overflows :: "rdnf \<Rightarrow> rdnf \<Rightarrow> bool" where
  "overflows left right \<longleftrightarrow> left \<noteq> [] \<and> right \<noteq> [] \<and> length left * length right > MAX_RDNF_CONJUNCTIONS"

lemma sat_product:
  "rdnf_sat atom (concat (map (\<lambda>l. map (\<lambda>r. l @ r) right) left)) \<longleftrightarrow> rdnf_sat atom left \<and> rdnf_sat atom right"
proof -
  have "rdnf_sat atom (map (\<lambda>r. l @ r) right) \<longleftrightarrow> conj_sat atom l \<and> rdnf_sat atom right" for l
    by (induction right) auto
  then show ?thesis by (induction left) auto
qed

lemma sat_distribute:
  "rdnf_sat atom (distribute left right) \<longleftrightarrow>
     rdnf_sat atom left \<and> rdnf_sat atom right \<or> overflows left right"
  by (auto simp: distribute_def overflows_def sat_product)

lemma sat_negated: "rdnf_sat atom (map (\<lambda>a. [negate_atom a]) c) \<longleftrightarrow> \<not> conj_sat atom c"
  by (induction c) auto

fun negate_overflows :: "rdnf \<Rightarrow> rdnf \<Rightarrow> bool" where
  "negate_overflows result [] = False"
| "negate_overflows result (c # cs) =
     (c \<noteq> [] \<and> (overflows result (map (\<lambda>a. [negate_atom a]) c)
        \<or> negate_overflows (distribute result (map (\<lambda>a. [negate_atom a]) c)) cs))"

lemma sat_negate_loop_above:
  "rdnf_sat atom result \<Longrightarrow> \<not> rdnf_sat atom cs \<Longrightarrow> rdnf_sat atom (negate_loop result cs)"
  by (induction result cs rule: negate_loop.induct) (auto simp: sat_distribute sat_negated)

lemma sat_negate_loop:
  "\<not> negate_overflows result cs \<Longrightarrow>
     rdnf_sat atom (negate_loop result cs) \<longleftrightarrow> rdnf_sat atom result \<and> \<not> rdnf_sat atom cs"
  by (induction result cs rule: negate_loop.induct) (auto simp: sat_distribute sat_negated)

lemma sat_negate_above: "\<not> rdnf_sat atom r \<Longrightarrow> rdnf_sat atom (negate_rdnf r)"
  by (auto simp: negate_rdnf_def intro: sat_negate_loop_above)

lemma sat_negate: "\<not> negate_overflows [[]] r \<Longrightarrow> rdnf_sat atom (negate_rdnf r) \<longleftrightarrow> \<not> rdnf_sat atom r"
  by (auto simp: negate_rdnf_def sat_negate_loop)

fun fold_overflows :: "rdnf \<Rightarrow> rdnf list \<Rightarrow> bool" where
  "fold_overflows r [] = False"
| "fold_overflows r (s # ss) = (overflows r s \<or> fold_overflows (distribute r s) ss)"

lemma sat_fold_above:
  "rdnf_sat atom r \<Longrightarrow> \<forall>s \<in> set ss. rdnf_sat atom s \<Longrightarrow> rdnf_sat atom (foldl distribute r ss)"
  by (induction ss arbitrary: r) (auto simp: sat_distribute)

lemma sat_fold:
  "\<not> fold_overflows r ss \<Longrightarrow>
     rdnf_sat atom (foldl distribute r ss) \<longleftrightarrow> rdnf_sat atom r \<and> (\<forall>s \<in> set ss. rdnf_sat atom s)"
  by (induction ss arbitrary: r) (auto simp: sat_distribute)

section \<open>Normal form and denotation\<close>

text \<open>Whether computing the normal form of a type meets the limit anywhere.\<close>

function meets_limit :: "tyval \<Rightarrow> bool" where
  "meets_limit tv =
     (case typevalue_ctor_index tv of
        None \<Rightarrow> False
      | Some c \<Rightarrow>
          if c = TV_UNION then
            (case members_of tv of None \<Rightarrow> False | Some ms \<Rightarrow> \<exists>m \<in> set ms. meets_limit m)
          else if c = TV_INTER then
            (case members_of tv of
               None \<Rightarrow> False
             | Some [] \<Rightarrow> False
             | Some (m # ms) \<Rightarrow> (\<exists>m \<in> set (m # ms). meets_limit m)
                 \<or> fold_overflows (to_rdnf m) (map to_rdnf ms))
          else if c = TV_NEG then
            (case negated_of tv of None \<Rightarrow> False
             | Some inner \<Rightarrow> meets_limit inner \<or> negate_overflows [[]] (to_rdnf inner))
          else False)"
  by pat_completeness auto
termination
  by (relation "measure size") (auto dest: size_members_of size_negated_of)

declare meets_limit.simps [simp del]

text \<open>Whether the limit is met under a negation.\<close>

function limit_under_neg :: "tyval \<Rightarrow> bool" where
  "limit_under_neg tv =
     (case typevalue_ctor_index tv of
        None \<Rightarrow> False
      | Some c \<Rightarrow>
          if c = TV_UNION \<or> c = TV_INTER then
            (case members_of tv of None \<Rightarrow> False | Some ms \<Rightarrow> \<exists>m \<in> set ms. limit_under_neg m)
          else if c = TV_NEG then
            (case negated_of tv of None \<Rightarrow> False | Some inner \<Rightarrow> meets_limit inner)
          else False)"
  by pat_completeness auto
termination
  by (relation "measure size") (auto dest: size_members_of size_negated_of)

declare limit_under_neg.simps [simp del]

text \<open>The shapes a type has for the normal form.\<close>

lemma type_shape:
  obtains (unit) "typevalue_ctor_index tv \<notin> {Some TV_UNION, Some TV_INTER, Some TV_NEG}"
  | (no_members) c where "typevalue_ctor_index tv = Some c" "c = TV_UNION \<or> c = TV_INTER" "members_of tv = None"
  | (union) ms where "typevalue_ctor_index tv = Some TV_UNION" "members_of tv = Some ms"
  | (empty_inter) "typevalue_ctor_index tv = Some TV_INTER" "members_of tv = Some []"
  | (inter) m ms where "typevalue_ctor_index tv = Some TV_INTER" "members_of tv = Some (m # ms)"
  | (no_inner) "typevalue_ctor_index tv = Some TV_NEG" "negated_of tv = None"
  | (neg) inner where "typevalue_ctor_index tv = Some TV_NEG" "negated_of tv = Some inner"
  by (metis insertE option.exhaust list.exhaust singletonD)

lemma rdnf_exact: "\<not> meets_limit tv \<Longrightarrow> rdnf_sat atom (to_rdnf tv) \<longleftrightarrow> den atom tv"
proof (induction tv rule: measure_induct_rule [of size])
  case (less tv)
  note unfolds = to_rdnf.simps [of tv] den.simps [of atom tv] meets_limit.simps [of tv]
  show ?case
  proof (cases rule: type_shape [of tv])
    case unit
    then show ?thesis unfolding unfolds by (auto split: option.split)
  next
    case (union ms)
    have "rdnf_sat atom (to_rdnf m) \<longleftrightarrow> den atom m" if "m \<in> set ms" for m
      using less union that size_members_of unfolding unfolds by auto
    then show ?thesis using union unfolding unfolds by (simp add: sat_concat)
  next
    case (inter m ms)
    have "rdnf_sat atom (to_rdnf x) \<longleftrightarrow> den atom x" if "x \<in> set (m # ms)" for x
      using less inter that size_members_of unfolding unfolds by auto
    moreover have "\<not> fold_overflows (to_rdnf m) (map to_rdnf ms)"
      using less.prems inter unfolding unfolds by simp
    ultimately show ?thesis using inter unfolding unfolds by (simp add: sat_fold)
  next
    case (neg inner)
    then have "rdnf_sat atom (to_rdnf inner) \<longleftrightarrow> den atom inner"
      using less size_negated_of unfolding unfolds by auto
    moreover have "\<not> negate_overflows [[]] (to_rdnf inner)"
      using less.prems neg unfolding unfolds by simp
    ultimately show ?thesis using neg unfolding unfolds by (simp add: sat_negate)
  qed (auto simp: unfolds)
qed

lemma rdnf_above: "\<not> limit_under_neg tv \<Longrightarrow> den atom tv \<Longrightarrow> rdnf_sat atom (to_rdnf tv)"
proof (induction tv rule: measure_induct_rule [of size])
  case (less tv)
  note unfolds = to_rdnf.simps [of tv] den.simps [of atom tv] limit_under_neg.simps [of tv]
  show ?case
  proof (cases rule: type_shape [of tv])
    case unit
    then show ?thesis using less.prems unfolding unfolds by (auto split: option.splits if_splits)
  next
    case (union ms)
    then obtain m where "m \<in> set ms" "den atom m" using less.prems unfolding unfolds by auto
    moreover from this have "rdnf_sat atom (to_rdnf m)"
      using less union size_members_of unfolding unfolds by auto
    ultimately show ?thesis using union unfolding unfolds by (auto simp: sat_concat)
  next
    case (inter m ms)
    have "rdnf_sat atom (to_rdnf x)" if "x \<in> set (m # ms)" for x
      using less inter that size_members_of unfolding unfolds by auto
    then show ?thesis using inter unfolding unfolds by (simp add: sat_fold_above)
  next
    case (neg inner)
    then have "rdnf_sat atom (to_rdnf inner) \<longleftrightarrow> den atom inner"
      using less.prems rdnf_exact unfolding unfolds by auto
    then show ?thesis using less.prems neg unfolding unfolds by (simp add: sat_negate_above)
  qed (use less.prems in \<open>auto simp: unfolds\<close>)
qed

text \<open>
  C17: The normal form of a type has the type's meaning, for every interpretation of the atoms,
  when no distribution meets the limit of 1024 conjunctions; when the limit is met outside
  negations only, the normal form is above the type.
\<close>

theorem to_rdnf_correct:
  assumes "\<not> limit_under_neg tv"
  shows "(den atom tv \<longrightarrow> rdnf_sat atom (to_rdnf tv))
    \<and> (\<not> meets_limit tv \<longrightarrow> (rdnf_sat atom (to_rdnf tv) \<longleftrightarrow> den atom tv))"
  using rdnf_exact rdnf_above assms by blast

theorem to_rdnf_correct_witness:
  "rdnf_sat (\<lambda>_. True) (to_rdnf (build_members_typevalue 50 TV_UNION [make_typevalue_nominal 1]))"
proof -
  let ?t = "build_members_typevalue 50 TV_UNION [make_typevalue_nominal 1]"
  have parts: "members_of ?t = Some [make_typevalue_nominal 1]"
    unfolding members_of_def by (rule built_members)
  have "\<not> limit_under_neg ?t" "den (\<lambda>_. True) ?t"
    by (simp_all add: limit_under_neg.simps [of ?t] limit_under_neg.simps [of "make_typevalue_nominal 1"]
        den.simps [of _ ?t] den.simps [of _ "make_typevalue_nominal 1"] parts)
  then show ?thesis using to_rdnf_correct by blast
qed

text \<open>
  The limit met under a negation: a distribution that is too large gives the top, so its
  negation gives the bottom, whatever the type.
\<close>

lemma limit_under_negation_empty:
  assumes "typevalue_ctor_index tv = Some TV_NEG" "negated_of tv = Some inner"
    and "typevalue_ctor_index inner = Some TV_INTER" "members_of inner = Some [a, b]"
    and "overflows (to_rdnf a) (to_rdnf b)"
  shows "to_rdnf tv = []"
  using assms by (simp add: to_rdnf.simps [of tv] to_rdnf.simps [of inner] distribute_def overflows_def
      negate_rdnf_def)

end
