(* ===== verification/Subtyping.thy ===== *)
theory Subtyping
  imports Rdnf Index_Map
begin

text \<open>
  Subtyping of \<^verbatim>\<open>src/bas.rs\<close>: the fingerprint that keys the coinductive hypotheses, the
  unfolding of recursive types, disjointness and subtyping of atoms, emptiness of a normal
  form, and \<open>is_subtype_bas\<close>. The code recurses with a growing \<open>depth\<close> that
  \<open>is_atom_subtype\<close> bounds by 256; the model recurses on what is left of it, and the
  functions between two calls of \<open>is_atom_subtype\<close> take the call at the next depth as an
  argument, so their own guards on the depth, which that bound makes unreachable, have no
  counterpart. The set \<open>sigma\<close> of hypotheses is threaded where the code passes the mutable
  reference on and not through \<open>is_rdnf_empty\<close>, which works on a copy per conjunction. Types
  taken from payloads are fresh copies, so pointer equality is asked of the caller only.
\<close>

section \<open>Structural fingerprints\<close>

definition MAX_FINGERPRINT_DEPTH :: nat where "MAX_FINGERPRINT_DEPTH = 64"

definition or_unknown :: "str option \<Rightarrow> str" where
  "or_unknown o' = (case o' of None \<Rightarrow> us ''?'' | Some s \<Rightarrow> s)"

fun le_str :: "str \<Rightarrow> str \<Rightarrow> bool" where
  "le_str [] _ = True"
| "le_str (x # xs) [] = False"
| "le_str (x # xs) (y # ys) = (x < y \<or> x = y \<and> le_str xs ys)"

text \<open>The stable sort of the fields by key: insertion from the right, before equal keys.\<close>

fun insert_field :: "str \<times> str \<Rightarrow> (str \<times> str) list \<Rightarrow> (str \<times> str) list" where
  "insert_field x [] = [x]"
| "insert_field x (y # ys) = (if le_str (fst x) (fst y) then x # y # ys else y # insert_field x ys)"

definition sort_fields :: "(str \<times> str) list \<Rightarrow> (str \<times> str) list" where
  "sort_fields xs = foldr insert_field xs []"

definition field_key :: "hashable_value \<Rightarrow> str option" where
  "field_key k = (case k of HStr s \<Rightarrow> Some s | HInt n \<Rightarrow> Some (int_to_str n) | _ \<Rightarrow> None)"

definition fingerprint_fields :: "(tyval \<Rightarrow> str) \<Rightarrow> tyval \<Rightarrow> str" where
  "fingerprint_fields fp fs =
     (case fs of
        TDict entries \<Rightarrow>
          join_str (us '','') (map (\<lambda>(k, v). k @ us '':'' @ v) (sort_fields
            (List.map_filter (\<lambda>(k, v). map_option (\<lambda>s. (s, fp v)) (field_key k)) entries)))
      | _ \<Rightarrow> us ''?'')"

definition fingerprint_tail :: "(tyval \<Rightarrow> str) \<Rightarrow> tyval \<Rightarrow> str" where
  "fingerprint_tail fp t =
     (case t of
        TDict [] \<Rightarrow> us ''[]''
      | TVariant _ c _ \<Rightarrow> if c = RT_CLOSED then us ''closed'' else fp t
      | _ \<Rightarrow> fp t)"

definition fingerprint_body :: "tycon_env \<Rightarrow> (tyval \<Rightarrow> str) \<Rightarrow> tyval \<Rightarrow> str" where
  "fingerprint_body env fp tv =
     (case tv of
        TVariant type_decl_id c payload \<Rightarrow>
          let field = (\<lambda>f. Option.bind payload (\<lambda>p. payload_typevalue_field p f));
              child = (\<lambda>f. or_unknown (map_option fp (field f)));
              int_field = (\<lambda>f. Option.bind payload (\<lambda>p. payload_int_field p f));
              str_field = (\<lambda>f. or_unknown (Option.bind payload (\<lambda>p. payload_string_field p f)))
          in if c = TV_NOMINAL then
               us ''Nominal('' @ or_unknown (map_option (nat_to_str \<circ> unat) (typevalue_nominal_id tv)) @ us '')''
             else if c = TV_VAR then us ''Var('' @ str_field (us ''name'') @ us '')''
             else if c = TV_INT_LIT then
               us ''IntLit('' @ or_unknown (map_option int_to_str (int_field (us ''value''))) @ us '')''
             else if c = TV_STR_LIT then us ''StrLit('' @ str_field (us ''value'') @ us '')''
             else if c = TV_FLOAT_LIT then
               us ''FloatLit('' @ or_unknown (map_option (nat_to_str \<circ> unat)
                 (Option.bind payload (\<lambda>p. payload_float_field_bits p (us ''value'')))) @ us '')''
             else if c = TV_RECURSIVE_REF then
               us ''Ref('' @ or_unknown (map_option int_to_str (int_field (us ''depth''))) @ us '')''
             else if c = TV_RECURSIVE then us ''Rec('' @ child (us ''body'') @ us '')''
             else if c = TV_UNION \<or> c = TV_INTER then
               (if c = TV_UNION then us ''U'' else us ''I'') @ us ''(''
                 @ join_str (us '','') (case payload of None \<Rightarrow> [] | Some p \<Rightarrow> map fp (payload_members p))
                 @ us '')''
             else if c = TV_NEG then us ''Neg('' @ child (us ''of'') @ us '')''
             else if c = TV_FN then
               us ''Fn('' @ or_unknown (map_option (\<lambda>ps. join_str (us '','') (map fp (collect_indexed_typevalues ps)))
                   (field (us ''params'')))
                 @ us '')->'' @ child (us ''return'')
             else if c = TV_RECORD then
               us ''Record{'' @ or_unknown (map_option (fingerprint_fields fp) (field (us ''fields'')))
                 @ us ''|'' @ or_unknown (map_option (fingerprint_tail fp) (field (us ''tail''))) @ us ''}''
             else if c = TV_APP then us ''App('' @ child (us ''op'') @ us '','' @ child (us ''arg'') @ us '')''
             else if c = TV_NOMINAL_VARIANT then
               us ''NV('' @ ctor_display_name
                   (case nominal_variant_tycon tv of None \<Rightarrow> 0 | Some t \<Rightarrow> t)
                   (case nominal_variant_ctor tv of None \<Rightarrow> 0 | Some k \<Rightarrow> unat k) env @ us '')''
             else ctor_display_name type_decl_id c env
      | _ \<Rightarrow> us ''?'')"

text \<open>The first argument is what is left of the depth; the text at the limit is an ellipsis.\<close>

primrec fingerprint :: "nat \<Rightarrow> tycon_env \<Rightarrow> tyval \<Rightarrow> str" where
  "fingerprint 0 env tv = [0x2026]"
| "fingerprint (Suc n) env tv = fingerprint_body env (fingerprint n env) tv"

definition typevalue_structural_fingerprint :: "tyval \<Rightarrow> tycon_env \<Rightarrow> str" where
  "typevalue_structural_fingerprint tv env = fingerprint MAX_FINGERPRINT_DEPTH env tv"

section \<open>Unfolding\<close>

definition or_same :: "(tyval \<Rightarrow> tyval option) \<Rightarrow> tyval \<Rightarrow> tyval" where
  "or_same f v = (case f v of None \<Rightarrow> v | Some v' \<Rightarrow> v')"

definition with_field :: "str \<Rightarrow> tyval option \<Rightarrow> (str \<times> tyval) list \<Rightarrow> (str \<times> tyval) list" where
  "with_field k o' fs = (case o' of None \<Rightarrow> fs | Some v \<Rightarrow> ordered_insert k v fs)"

text \<open>The fields of a payload that have string keys, in order.\<close>

definition copy_fields :: "tyval \<Rightarrow> (str \<times> tyval) list" where
  "copy_fields payload =
     (case payload of
        TDict entries \<Rightarrow> List.map_filter (\<lambda>(k, v). case k of HStr s \<Rightarrow> Some (s, v) | _ \<Rightarrow> None) entries
      | _ \<Rightarrow> [])"

definition entries_of :: "tyval \<Rightarrow> (hashable_value \<times> tyval) list option" where
  "entries_of tv = (case tv of TDict es \<Rightarrow> Some es | _ \<Rightarrow> None)"

definition field_of :: "tyval \<Rightarrow> str \<Rightarrow> tyval option" where
  "field_of tv f = Option.bind (typevalue_payload tv) (\<lambda>p. payload_typevalue_field p f)"

text \<open>Entries with integer keys in the order of the keys, as pairs.\<close>

definition indexed_entries :: "(hashable_value \<times> tyval) list \<Rightarrow> (int \<times> tyval) list" where
  "indexed_entries entries =
     sort_key fst (List.map_filter (\<lambda>(k, v). case k of HInt i \<Rightarrow> Some (i, v) | _ \<Rightarrow> None) entries)"

definition rebuild :: "nat \<Rightarrow> tyval \<Rightarrow> (str \<times> tyval option) list \<Rightarrow> tyval" where
  "rebuild c tv fs =
     make_payload_typevalue TYPE_ID_TYPE_VALUE c (make_payload
       (fold (\<lambda>(k, o'). with_field k o') fs
         (case typevalue_payload tv of None \<Rightarrow> [] | Some p \<Rightarrow> copy_fields p)))"

lemma size_field_of: "field_of tv f = Some v \<Longrightarrow> size v < size tv"
  unfolding field_of_def by (auto simp: bind_eq_Some_conv dest!: size_payload size_typevalue_field)

lemma size_field_entry:
  "field_of tv f = Some v \<Longrightarrow> entries_of v = Some es \<Longrightarrow> (k, x) \<in> set es \<Longrightarrow> size x < size tv"
  using size_field_of [of tv f v] size_entry [of k x es]
  by (auto simp: entries_of_def split: tyval.splits)

lemma indexed_entries_in: "(i, x) \<in> set (indexed_entries es) \<Longrightarrow> (HInt i, x) \<in> set es"
  unfolding indexed_entries_def
  by (auto simp: List.map_filter_def split: hashable_value.splits)

text \<open>
  \<open>substitute_recursive_ref\<close>: \<open>None\<close> is the code's return of the same pointer, which it
  tests to see that nothing changed.
\<close>

function subst_ref :: "tyval \<Rightarrow> u32 \<Rightarrow> tyval \<Rightarrow> tyval option" where
  "subst_ref replacement target tv =
     (case typevalue_ctor_index tv of
        None \<Rightarrow> None
      | Some c \<Rightarrow>
          if c = TV_RECURSIVE_REF then
            (case Option.bind (typevalue_payload tv) (\<lambda>p. payload_int_field p (us ''depth'')) of
               None \<Rightarrow> None
             | Some d \<Rightarrow> if word_of_int d = target then Some replacement else None)
          else if c = TV_RECURSIVE then
            (case field_of tv (us ''body'') of
               None \<Rightarrow> None
             | Some body \<Rightarrow>
                 map_option (\<lambda>b. make_payload_typevalue TYPE_ID_TYPE_VALUE TV_RECURSIVE (make_payload [(us ''body'', b)]))
                   (subst_ref replacement (target + 1) body))
          else if c = TV_UNION \<or> c = TV_INTER then
            (case members_of tv of
               None \<Rightarrow> None
             | Some ms \<Rightarrow>
                 if \<forall>m \<in> set ms. subst_ref replacement target m = None then None
                 else Some (build_members_typevalue TYPE_ID_TYPE_VALUE c
                   (map (\<lambda>m. case subst_ref replacement target m of None \<Rightarrow> m | Some m' \<Rightarrow> m') ms)))
          else if c = TV_NEG then
            (case negated_of tv of
               None \<Rightarrow> None
             | Some inner \<Rightarrow>
                 map_option (\<lambda>b. make_payload_typevalue TYPE_ID_TYPE_VALUE TV_NEG (make_payload [(us ''of'', b)]))
                   (subst_ref replacement target inner))
          else if c = TV_FN then
            (let new_ret = (case field_of tv (us ''return'') of
                    None \<Rightarrow> None | Some r \<Rightarrow> subst_ref replacement target r);
                 new_params = (case field_of tv (us ''params'') of
                    None \<Rightarrow> None
                  | Some ps \<Rightarrow>
                      (case entries_of ps of
                         None \<Rightarrow> None
                       | Some es \<Rightarrow>
                           if \<forall>x \<in> set (indexed_entries es). subst_ref replacement target (snd x) = None then None
                           else Some (TDict (map (\<lambda>x. (HInt (fst x),
                             case subst_ref replacement target (snd x) of None \<Rightarrow> snd x | Some v \<Rightarrow> v))
                               (indexed_entries es)))))
             in if new_ret = None \<and> new_params = None then None
                else Some (rebuild TV_FN tv
                  [(us ''return'', case new_ret of None \<Rightarrow> field_of tv (us ''return'') | Some r \<Rightarrow> Some r),
                   (us ''params'', case new_params of None \<Rightarrow> field_of tv (us ''params'') | Some p \<Rightarrow> Some p)]))
          else if c = TV_RECORD then
            (let new_fields = (case field_of tv (us ''fields'') of
                    None \<Rightarrow> None
                  | Some fv \<Rightarrow>
                      (case entries_of fv of
                         None \<Rightarrow> None
                       | Some es \<Rightarrow>
                           if \<forall>x \<in> set es. subst_ref replacement target (snd x) = None then None
                           else Some (TDict (map (\<lambda>x. (fst x,
                             case subst_ref replacement target (snd x) of None \<Rightarrow> snd x | Some v \<Rightarrow> v)) es))));
                 new_tail = (case field_of tv (us ''tail'') of
                    None \<Rightarrow> None | Some t \<Rightarrow> subst_ref replacement target t)
             in if new_fields = None \<and> new_tail = None then None
                else Some (rebuild TV_RECORD tv
                  [(us ''fields'', case new_fields of None \<Rightarrow> field_of tv (us ''fields'') | Some v \<Rightarrow> Some v),
                   (us ''tail'', case new_tail of None \<Rightarrow> field_of tv (us ''tail'') | Some t \<Rightarrow> Some t)]))
          else if c = TV_APP then
            (let new_op = (case field_of tv (us ''op'') of
                    None \<Rightarrow> None | Some x \<Rightarrow> subst_ref replacement target x);
                 new_arg = (case field_of tv (us ''arg'') of
                    None \<Rightarrow> None | Some x \<Rightarrow> subst_ref replacement target x)
             in if new_op = None \<and> new_arg = None then None
                else Some (rebuild TV_APP tv
                  [(us ''op'', case new_op of None \<Rightarrow> field_of tv (us ''op'') | Some x \<Rightarrow> Some x),
                   (us ''arg'', case new_arg of None \<Rightarrow> field_of tv (us ''arg'') | Some x \<Rightarrow> Some x)]))
          else if c = TV_NOMINAL_VARIANT then
            (case field_of tv (us ''fields'') of
               None \<Rightarrow> None
             | Some fs \<Rightarrow>
                 map_option (\<lambda>fs'. rebuild TV_NOMINAL_VARIANT tv [(us ''fields'', Some fs')])
                   (subst_ref replacement target fs))
          else None)"
  by pat_completeness auto
termination
  by (relation "measure (\<lambda>(_, _, tv). size tv)")
    (auto dest: size_members_of size_negated_of size_field_of
      intro: size_field_entry size_field_entry [OF _ _ indexed_entries_in])

declare subst_ref.simps [simp del]

definition unfold_recursive_typevalue :: "tyval \<Rightarrow> tyval" where
  "unfold_recursive_typevalue tv =
     (if typevalue_ctor_index tv \<noteq> Some TV_RECURSIVE then tv
      else case field_of tv (us ''body'') of
        None \<Rightarrow> tv
      | Some body \<Rightarrow> or_same (subst_ref tv 0) body)"

section \<open>Hypotheses and loops of checks\<close>

type_synonym hyps = "(str \<times> str) set"
type_synonym atom_check = "tyval \<Rightarrow> tyval \<Rightarrow> hyps \<Rightarrow> bool \<times> hyps"

fun any_check :: "('a \<Rightarrow> hyps \<Rightarrow> bool \<times> hyps) \<Rightarrow> 'a list \<Rightarrow> hyps \<Rightarrow> bool \<times> hyps" where
  "any_check f [] sigma = (False, sigma)"
| "any_check f (x # xs) sigma =
     (case f x sigma of (True, sigma') \<Rightarrow> (True, sigma') | (False, sigma') \<Rightarrow> any_check f xs sigma')"

definition both_checks :: "bool \<times> hyps \<Rightarrow> (hyps \<Rightarrow> bool \<times> hyps) \<Rightarrow> bool \<times> hyps" where
  "both_checks r f = (case r of (True, sigma) \<Rightarrow> f sigma | (False, sigma) \<Rightarrow> (False, sigma))"

section \<open>Disjoint atoms and empty normal forms\<close>

definition literal_value :: "(tyval \<Rightarrow> str \<Rightarrow> 'a option) \<Rightarrow> tyval \<Rightarrow> 'a option" where
  "literal_value read tv = Option.bind (typevalue_payload tv) (\<lambda>p. read p (us ''value''))"

function atoms_are_disjoint :: "tyval \<Rightarrow> tyval \<Rightarrow> bool" where
  "atoms_are_disjoint a b =
     (case (typevalue_ctor_index a, typevalue_ctor_index b) of
        (Some x, Some y) \<Rightarrow>
          if x = TV_VAR \<or> y = TV_VAR then False
          else if x = TV_NOMINAL \<and> y = TV_NOMINAL then
            (case (typevalue_nominal_id a, typevalue_nominal_id b) of
               (Some ai, Some bi) \<Rightarrow> ai \<noteq> bi | _ \<Rightarrow> False)
          else if x = TV_INT_LIT \<and> y = TV_INT_LIT then
            (case (literal_value payload_int_field a, literal_value payload_int_field b) of
               (Some an, Some bn) \<Rightarrow> an \<noteq> bn | _ \<Rightarrow> False)
          else if x = TV_FLOAT_LIT \<and> y = TV_FLOAT_LIT then
            (case (literal_value payload_float_field_bits a,
                   literal_value payload_float_field_bits b) of
               (Some ab, Some bb) \<Rightarrow> ab \<noteq> bb | _ \<Rightarrow> False)
          else if x = TV_STR_LIT \<and> y = TV_NOMINAL then typevalue_nominal_id b \<noteq> Some TYPE_ID_STRING
          else if x = TV_NOMINAL \<and> y = TV_STR_LIT then typevalue_nominal_id a \<noteq> Some TYPE_ID_STRING
          else if x = TV_INT_LIT \<and> y = TV_NOMINAL then typevalue_nominal_id b \<noteq> Some TYPE_ID_INT
          else if x = TV_NOMINAL \<and> y = TV_INT_LIT then typevalue_nominal_id a \<noteq> Some TYPE_ID_INT
          else if x = TV_FLOAT_LIT \<and> y = TV_NOMINAL then typevalue_nominal_id b \<noteq> Some TYPE_ID_FLOAT
          else if x = TV_NOMINAL \<and> y = TV_FLOAT_LIT then typevalue_nominal_id a \<noteq> Some TYPE_ID_FLOAT
          else if x = TV_NOMINAL \<or> y = TV_NOMINAL then
            (let other = (if x = TV_NOMINAL then y else x)
             in other \<in> {TV_RECORD, TV_FN, TV_APP, TV_NOMINAL_VARIANT, TV_RECURSIVE})
          else if x = TV_RECORD \<and> y = TV_FN \<or> x = TV_FN \<and> y = TV_RECORD then True
          else if x = TV_NOMINAL_VARIANT \<and> y = TV_NOMINAL_VARIANT then
            (case (nominal_variant_tycon a, nominal_variant_tycon b,
                   nominal_variant_ctor a, nominal_variant_ctor b) of
               (Some at', Some bt, Some ac', Some bc') \<Rightarrow> at' \<noteq> bt \<or> ac' \<noteq> bc' | _ \<Rightarrow> False)
          else if x = TV_NOMINAL_VARIANT \<and> (y = TV_RECORD \<or> y = TV_FN)
            \<or> y = TV_NOMINAL_VARIANT \<and> (x = TV_RECORD \<or> x = TV_FN) then True
          else if x = TV_RECURSIVE \<or> y = TV_RECURSIVE then False
          else if x = TV_APP \<and> y = TV_APP then
            (case (field_of a (us ''op''), field_of b (us ''op'')) of
               (Some ao, Some bo) \<Rightarrow> atoms_are_disjoint ao bo | _ \<Rightarrow> False)
          else x = TV_FN \<and> y = TV_APP \<or> x = TV_APP \<and> y = TV_FN
      | _ \<Rightarrow> False)"
  by pat_completeness auto
termination
  by (relation "measure (\<lambda>(a, _). size a)") (auto intro: size_field_of [OF sym])

declare atoms_are_disjoint.simps [simp del]

definition positives :: "conjunction \<Rightarrow> tyval list" where
  "positives c = List.map_filter (\<lambda>sa. case sa of Pos a \<Rightarrow> Some a | Neg _ \<Rightarrow> None) c"

definition negatives :: "conjunction \<Rightarrow> tyval list" where
  "negatives c = List.map_filter (\<lambda>sa. case sa of Neg a \<Rightarrow> Some a | Pos _ \<Rightarrow> None) c"

fun some_pair :: "('a \<Rightarrow> 'a \<Rightarrow> bool) \<Rightarrow> 'a list \<Rightarrow> bool" where
  "some_pair f [] = False"
| "some_pair f (x # xs) = (list_ex (f x) xs \<or> some_pair f xs)"

definition is_conjunction_empty :: "atom_check \<Rightarrow> conjunction \<Rightarrow> hyps \<Rightarrow> bool" where
  "is_conjunction_empty atom c sigma =
     (c \<noteq> [] \<and> (some_pair atoms_are_disjoint (positives c)
        \<or> fst (any_check (\<lambda>(p, n). atom p n) (List.product (positives c) (negatives c)) sigma)))"

definition is_rdnf_empty :: "atom_check \<Rightarrow> rdnf \<Rightarrow> hyps \<Rightarrow> bool" where
  "is_rdnf_empty atom rdnf sigma = list_all (\<lambda>c. is_conjunction_empty atom c sigma) rdnf"

definition negation :: "tyval \<Rightarrow> tyval" where
  "negation tv = make_payload_typevalue TYPE_ID_TYPE_VALUE TV_NEG (make_payload [(us ''of'', tv)])"

definition difference :: "tyval \<Rightarrow> tyval \<Rightarrow> tyval" where
  "difference sub super = build_members_typevalue TYPE_ID_TYPE_VALUE TV_INTER [sub, negation super]"

definition is_subtype_bas_with_sigma :: "atom_check \<Rightarrow> tyval \<Rightarrow> tyval \<Rightarrow> hyps \<Rightarrow> bool" where
  "is_subtype_bas_with_sigma atom sub super sigma =
     (let s = typevalue_ctor_index sub; p = typevalue_ctor_index super in
      if s = Some TV_ERROR \<or> p = Some TV_ERROR then False
      else if p = Some TV_TOP then True
      else if s = Some TV_NEVER then True
      else if s = Some TV_UNKNOWN \<or> p = Some TV_UNKNOWN then False
      else if s = Some TV_VAR \<or> p = Some TV_VAR then True
      else is_rdnf_empty atom (to_rdnf (difference sub super)) sigma)"


section \<open>Subtyping of atoms\<close>

text \<open>
  The check of two types at the next depth is \<open>bas\<close>, of two atoms \<open>atom\<close>. What a
  check of types adds to \<open>sigma\<close> is lost when it returns, so the functions that only call
  \<open>bas\<close> return no set.
\<close>

definition typevalue_structurally_equal :: "atom_check \<Rightarrow> tyval \<Rightarrow> tyval \<Rightarrow> hyps \<Rightarrow> bool \<times> hyps" where
  "typevalue_structurally_equal atom sub super sigma =
     (case (typevalue_payload sub, typevalue_payload super) of
        (None, None) \<Rightarrow> (True, sigma)
      | (Some sp, Some pp) \<Rightarrow>
          let c = typevalue_ctor_index sub in
          if c = Some TV_NOMINAL then (typevalue_nominal_id sub = typevalue_nominal_id super, sigma)
          else if c = Some TV_VAR then
            (payload_string_field sp (us ''name'') = payload_string_field pp (us ''name''), sigma)
          else if c = Some TV_INT_LIT then
            (payload_int_field sp (us ''value'') = payload_int_field pp (us ''value''), sigma)
          else if c = Some TV_FLOAT_LIT then
            (payload_float_field_bits sp (us ''value'') = payload_float_field_bits pp (us ''value''), sigma)
          else if c = Some TV_STR_LIT then
            (payload_string_field sp (us ''value'') = payload_string_field pp (us ''value''), sigma)
          else both_checks (atom sub super sigma) (atom super sub)
      | _ \<Rightarrow> (False, sigma))"

definition is_fn_subtype :: "(tyval \<Rightarrow> tyval \<Rightarrow> bool) \<Rightarrow> tyval \<Rightarrow> tyval \<Rightarrow> bool" where
  "is_fn_subtype bas sub super =
     (case (typevalue_payload sub, typevalue_payload super) of
        (Some sub_payload, Some sup_payload) \<Rightarrow>
          (case (payload_typevalue_field sub_payload (us ''return''),
                 payload_typevalue_field sup_payload (us ''return'')) of
             (Some sub_ret, Some sup_ret) \<Rightarrow>
               bas sub_ret sup_ret
               \<and> (case (payload_typevalue_field sub_payload (us ''params''),
                         payload_typevalue_field sup_payload (us ''params'')) of
                    (None, None) \<Rightarrow> True
                  | (Some sub_ps, Some sup_ps) \<Rightarrow>
                      let sub_list = collect_indexed_typevalues sub_ps;
                          sup_list = collect_indexed_typevalues sup_ps;
                          sub_variadic = (payload_bool_field sub_payload (us ''variadic'') = Some True)
                      in if length sub_list > length sup_list then False
                         else if \<not> sub_variadic \<and> length sub_list < length sup_list then False
                         else list_all (\<lambda>(s, p). bas p s) (zip sub_list (take (length sub_list) sup_list))
                  | _ \<Rightarrow> False)
           | _ \<Rightarrow> False)
      | _ \<Rightarrow> True)"

definition is_closed_tail :: "tyval \<Rightarrow> bool" where
  "is_closed_tail tail =
     (case tail of TDict entries \<Rightarrow> entries = [] | TVariant _ c _ \<Rightarrow> c = RT_CLOSED | _ \<Rightarrow> False)"

definition check_sub_fields_against_uniform ::
  "(tyval \<Rightarrow> tyval \<Rightarrow> bool) \<Rightarrow> tyval option \<Rightarrow> str set \<Rightarrow> tyval \<Rightarrow> bool" where
  "check_sub_fields_against_uniform bas sub_fields sup_explicit_keys sup_val_type =
     (case sub_fields of
        Some (TDict entries) \<Rightarrow>
          list_all (\<lambda>(k, v). (case k of HStr s \<Rightarrow> s \<in> sup_explicit_keys | _ \<Rightarrow> False) \<or> bas v sup_val_type) entries
      | _ \<Rightarrow> True)"

definition explicit_keys :: "tyval option \<Rightarrow> str set" where
  "explicit_keys sup_fields =
     (case sup_fields of
        Some (TDict entries) \<Rightarrow>
          set (List.map_filter (\<lambda>(k, _). case k of HStr s \<Rightarrow> Some s | _ \<Rightarrow> None) entries)
      | _ \<Rightarrow> {})"

text \<open>The loop over the fields of the super type; \<open>Some\<close> is an early return.\<close>

definition record_fields_check ::
  "(tyval \<Rightarrow> tyval \<Rightarrow> bool) \<Rightarrow> tyval option \<Rightarrow> tyval option \<Rightarrow> bool option" where
  "record_fields_check bas sub_fields sup_fields =
     (case sup_fields of
        Some (TDict sup_entries) \<Rightarrow>
          (case sub_fields of
             Some (TDict sub_entries) \<Rightarrow>
               if list_all (\<lambda>(key, sup_field). case dict_get sub_entries key of
                    Some sub_field \<Rightarrow> bas sub_field sup_field | None \<Rightarrow> False) sup_entries
               then None else Some False
           | Some _ \<Rightarrow> Some False
           | None \<Rightarrow> Some (sup_entries = []))
      | _ \<Rightarrow> None)"

definition record_tail_check ::
  "(tyval \<Rightarrow> tyval \<Rightarrow> bool) \<Rightarrow> tyval option \<Rightarrow> str set \<Rightarrow> tyval option \<Rightarrow> tyval option \<Rightarrow> bool" where
  "record_tail_check bas sub_fields sup_keys sub_tail sup_tail =
     (case sup_tail of
        None \<Rightarrow> True
      | Some sup_t \<Rightarrow>
          if typevalue_ctor_index sup_t = Some RT_VAR then True
          else if typevalue_ctor_index sup_t = Some RT_UNIFORM then
            (case field_of sup_t (us ''value-type'') of
               None \<Rightarrow> True
             | Some sup_val_type \<Rightarrow>
                 (case sub_tail of
                    None \<Rightarrow> check_sub_fields_against_uniform bas sub_fields sup_keys sup_val_type
                  | Some sub_t \<Rightarrow>
                      if typevalue_ctor_index sub_t = Some RT_UNIFORM then
                        (case field_of sub_t (us ''value-type'') of
                           None \<Rightarrow> False | Some sub_val_type \<Rightarrow> bas sub_val_type sup_val_type)
                      else is_closed_tail sub_t
                        \<and> check_sub_fields_against_uniform bas sub_fields sup_keys sup_val_type))
          else (case sub_tail of None \<Rightarrow> True | Some sub_t \<Rightarrow> is_closed_tail sub_t))"

definition is_record_subtype :: "(tyval \<Rightarrow> tyval \<Rightarrow> bool) \<Rightarrow> tyval \<Rightarrow> tyval \<Rightarrow> bool" where
  "is_record_subtype bas sub super =
     (case (typevalue_payload sub, typevalue_payload super) of
        (Some sub_payload, Some sup_payload) \<Rightarrow>
          let sub_fields = payload_typevalue_field sub_payload (us ''fields'');
              sup_fields = payload_typevalue_field sup_payload (us ''fields'')
          in (case record_fields_check bas sub_fields sup_fields of
                Some r \<Rightarrow> r
              | None \<Rightarrow> record_tail_check bas sub_fields (explicit_keys sup_fields)
                  (payload_typevalue_field sub_payload (us ''tail''))
                  (payload_typevalue_field sup_payload (us ''tail'')))
      | _ \<Rightarrow> False)"

function app_spine_root_and_depth :: "tyval \<Rightarrow> (u64 \<times> nat) option" where
  "app_spine_root_and_depth op' =
     (if typevalue_ctor_index op' = Some TV_NOMINAL then map_option (\<lambda>i. (i, 0)) (typevalue_nominal_id op')
      else if typevalue_ctor_index op' = Some TV_APP then
        (case field_of op' (us ''op'') of
           None \<Rightarrow> None
         | Some inner \<Rightarrow> map_option (\<lambda>(i, d). (i, d + 1)) (app_spine_root_and_depth inner))
      else None)"
  by pat_completeness auto
termination
  by (relation "measure size") (auto dest: size_field_of)

declare app_spine_root_and_depth.simps [simp del]

definition app_variance :: "tycon_env \<Rightarrow> tyval \<Rightarrow> variance" where
  "app_variance env op' =
     (case Option.bind (app_spine_root_and_depth op')
        (\<lambda>(i, spine_depth). Option.bind (env i) (\<lambda>def. nth_opt (td_variance def) spine_depth)) of
        Some v \<Rightarrow> v | None \<Rightarrow> Invariant)"

definition is_app_subtype ::
  "tycon_env \<Rightarrow> atom_check \<Rightarrow> (tyval \<Rightarrow> tyval \<Rightarrow> hyps \<Rightarrow> bool) \<Rightarrow> tyval \<Rightarrow> tyval \<Rightarrow> hyps \<Rightarrow> bool \<times> hyps" where
  "is_app_subtype env atom bas sub super sigma =
     (case (field_of sub (us ''op''), field_of super (us ''op''),
            field_of sub (us ''arg''), field_of super (us ''arg'')) of
        (Some so, Some po, Some sa, Some pa) \<Rightarrow>
          both_checks (atom so po sigma) (\<lambda>sigma'.
            ((case app_variance env so of
                Covariant \<Rightarrow> bas sa pa sigma'
              | Contravariant \<Rightarrow> bas pa sa sigma'
              | Invariant \<Rightarrow> bas sa pa sigma' \<and> bas pa sa sigma'
              | Phantom_Param \<Rightarrow> True), sigma'))
      | _ \<Rightarrow> (False, sigma))"

definition recursive_key :: "tycon_env \<Rightarrow> tyval \<Rightarrow> tyval \<Rightarrow> str \<times> str" where
  "recursive_key env sub super =
     (typevalue_structural_fingerprint sub env, typevalue_structural_fingerprint super env)"

definition is_recursive_subtype ::
  "tycon_env \<Rightarrow> (tyval \<Rightarrow> tyval \<Rightarrow> hyps \<Rightarrow> bool) \<Rightarrow> tyval \<Rightarrow> tyval \<Rightarrow> hyps \<Rightarrow> bool \<times> hyps" where
  "is_recursive_subtype env bas sub super sigma =
     (let key = recursive_key env sub super in
      if key \<in> sigma then (True, sigma)
      else (bas (unfold_recursive_typevalue sub) (unfold_recursive_typevalue super) (insert key sigma),
            insert key sigma))"

definition is_nominal_subtype ::
  "tycon_env \<Rightarrow> (tyval \<Rightarrow> tyval \<Rightarrow> bool) \<Rightarrow> tyval \<Rightarrow> tyval \<Rightarrow> bool" where
  "is_nominal_subtype env bas sub super =
     (case (typevalue_nominal_id sub, typevalue_nominal_id super) of
        (Some sub_id, Some sup_id) \<Rightarrow>
          if sub_id = sup_id then True
          else (case env sup_id of
                  Some def \<Rightarrow> td_constructors def = [] \<and> bas sub (td_body def)
                | None \<Rightarrow> False)
      | _ \<Rightarrow> False)"

definition is_variant_subtype ::
  "tycon_env \<Rightarrow> (tyval \<Rightarrow> tyval \<Rightarrow> bool) \<Rightarrow> tyval \<Rightarrow> tyval \<Rightarrow> bool" where
  "is_variant_subtype env bas sub super =
     (case typevalue_nominal_id super of
        Some i \<Rightarrow>
          (case env i of
             Some def \<Rightarrow> bas sub (td_body def)
           | None \<Rightarrow> nominal_variant_tycon sub = Some i)
      | None \<Rightarrow> False)"

text \<open>\<open>is_atom_subtype\<close> below the depth limit: the arms of its match, in order.\<close>

definition atom_body :: "tycon_env \<Rightarrow> atom_check \<Rightarrow> atom_check" where
  "atom_body env atom sub super sigma =
     (let s = typevalue_ctor_index sub; p = typevalue_ctor_index super;
          bas = is_subtype_bas_with_sigma atom;
          here = (\<lambda>a b. bas a b sigma)
      in if s \<noteq> None \<and> s = p \<and> s \<notin> {Some TV_FN, Some TV_RECORD, Some TV_APP, Some TV_RECURSIVE}
           then typevalue_structurally_equal atom sub super sigma
         else if s = Some TV_VAR \<or> p = Some TV_VAR then (True, sigma)
         else if s = Some TV_INT_LIT \<and> p = Some TV_NOMINAL
           then (typevalue_nominal_id super = Some TYPE_ID_INT, sigma)
         else if s = Some TV_STR_LIT \<and> p = Some TV_NOMINAL
           then (typevalue_nominal_id super = Some TYPE_ID_STRING, sigma)
         else if s = Some TV_FLOAT_LIT \<and> p = Some TV_NOMINAL
           then (typevalue_nominal_id super = Some TYPE_ID_FLOAT, sigma)
         else if s = Some TV_FN \<and> p = Some TV_FN then (is_fn_subtype here sub super, sigma)
         else if s = Some TV_RECORD \<and> p = Some TV_RECORD then (is_record_subtype here sub super, sigma)
         else if s = Some TV_APP \<and> p = Some TV_APP then is_app_subtype env atom bas sub super sigma
         else if s = Some TV_RECURSIVE \<and> p = Some TV_RECURSIVE
           then is_recursive_subtype env bas sub super sigma
         else if s = Some TV_RECURSIVE then (here (unfold_recursive_typevalue sub) super, sigma)
         else if p = Some TV_RECURSIVE then (here sub (unfold_recursive_typevalue super), sigma)
         else if s = Some TV_NOMINAL_VARIANT \<and> p = Some TV_NOMINAL
           then (is_variant_subtype env here sub super, sigma)
         else if s = Some TV_NOMINAL \<and> p = Some TV_NOMINAL
           then (is_nominal_subtype env here sub super, sigma)
         else if s = Some TV_NOMINAL \<and> p = Some TV_APP
           then (case field_of super (us ''op'') of
                   Some op' \<Rightarrow> if typevalue_ctor_index op' = Some TV_NOMINAL then atom sub op' sigma
                              else (False, sigma)
                 | None \<Rightarrow> (False, sigma))
         else (False, sigma))"

definition MAX_ATOM_SUBTYPE_DEPTH :: nat where "MAX_ATOM_SUBTYPE_DEPTH = 256"

text \<open>The first argument is what is left of the depth.\<close>

primrec is_atom_subtype :: "nat \<Rightarrow> tycon_env \<Rightarrow> atom_check" where
  "is_atom_subtype 0 env = (\<lambda>sub super sigma. (False, sigma))"
| "is_atom_subtype (Suc n) env = atom_body env (is_atom_subtype n env)"

text \<open>\<open>same\<close> says that the two arguments are one object.\<close>

definition is_subtype_bas :: "bool \<Rightarrow> tyval \<Rightarrow> tyval \<Rightarrow> tycon_env \<Rightarrow> bool" where
  "is_subtype_bas same sub super env =
     (same \<or> is_subtype_bas_with_sigma (is_atom_subtype MAX_ATOM_SUBTYPE_DEPTH env) sub super {})"

end
