(* ===== verification/Consistency.thy ===== *)
theory Consistency
  imports Subtyping
begin

text \<open>
  Consistent subtyping of \<^verbatim>\<open>src/bas.rs\<close>, the check of values against annotations, where an
  unknown type, and a variable in the position of the super type, are gradual. The code has
  no bound on its recursion, and unfolds recursive types as it goes, so the model has fuel;
  \<open>None\<close> is that the fuel is spent. The file shows that more fuel does not change a result
  and that a type without recursive parts needs no more fuel than its size.
\<close>

section \<open>Loops\<close>

fun all_opt :: "('a \<Rightarrow> bool option) \<Rightarrow> 'a list \<Rightarrow> bool option" where
  "all_opt f [] = Some True"
| "all_opt f (x # xs) = (case f x of Some True \<Rightarrow> all_opt f xs | r \<Rightarrow> r)"

fun any_opt :: "('a \<Rightarrow> bool option) \<Rightarrow> 'a list \<Rightarrow> bool option" where
  "any_opt f [] = Some False"
| "any_opt f (x # xs) = (case f x of Some False \<Rightarrow> any_opt f xs | r \<Rightarrow> r)"

section \<open>Consistent subtyping\<close>

type_synonym consistency = "tyval \<Rightarrow> tyval \<Rightarrow> bool option"

definition check_sub_fields_against_uniform_consistent ::
  "consistency \<Rightarrow> tyval option \<Rightarrow> str set \<Rightarrow> tyval \<Rightarrow> bool option" where
  "check_sub_fields_against_uniform_consistent con sub_fields sup_explicit_keys sup_val_type =
     (case sub_fields of
        Some (TDict entries) \<Rightarrow>
          all_opt (\<lambda>(k, v).
            case field_key k of
              None \<Rightarrow> Some True
            | Some key_str \<Rightarrow> if key_str \<in> sup_explicit_keys then Some True else con v sup_val_type) entries
      | _ \<Rightarrow> Some True)"

text \<open>The loop over the fields of the super type; \<open>Inl\<close> is an early return.\<close>

definition field_consistent ::
  "consistency \<Rightarrow> (hashable_value \<times> tyval) list \<Rightarrow> hashable_value \<times> tyval \<Rightarrow> bool option" where
  "field_consistent con sub_entries = (\<lambda>(key, sup_field).
     case dict_get sub_entries key of Some sub_field \<Rightarrow> con sub_field sup_field | None \<Rightarrow> Some False)"

definition record_fields_consistent ::
  "consistency \<Rightarrow> tyval option \<Rightarrow> tyval option \<Rightarrow> (bool option) + unit" where
  "record_fields_consistent con sub_fields sup_fields =
     (case sup_fields of
        Some (TDict sup_entries) \<Rightarrow>
          (case sub_fields of
             Some (TDict sub_entries) \<Rightarrow>
               (case all_opt (field_consistent con sub_entries) sup_entries of
                  Some True \<Rightarrow> Inr () | r \<Rightarrow> Inl r)
           | Some _ \<Rightarrow> Inl (Some False)
           | None \<Rightarrow> Inl (Some (sup_entries = [])))
      | _ \<Rightarrow> Inr ())"

definition record_tail_consistent ::
  "consistency \<Rightarrow> tyval option \<Rightarrow> str set \<Rightarrow> tyval option \<Rightarrow> tyval option \<Rightarrow> bool option" where
  "record_tail_consistent con sub_fields sup_keys sub_tail sup_tail =
     (case sup_tail of
        None \<Rightarrow> Some True
      | Some sup_t \<Rightarrow>
          if typevalue_ctor_index sup_t = Some RT_VAR then Some True
          else if typevalue_ctor_index sup_t = Some RT_UNIFORM then
            (case field_of sup_t (us ''value-type'') of
               None \<Rightarrow> Some True
             | Some sup_val_type \<Rightarrow>
                 (case sub_tail of
                    None \<Rightarrow> check_sub_fields_against_uniform_consistent con sub_fields sup_keys sup_val_type
                  | Some sub_t \<Rightarrow>
                      if typevalue_ctor_index sub_t = Some RT_UNIFORM then
                        (case field_of sub_t (us ''value-type'') of
                           None \<Rightarrow> Some False | Some sub_val_type \<Rightarrow> con sub_val_type sup_val_type)
                      else if is_closed_tail sub_t
                        then check_sub_fields_against_uniform_consistent con sub_fields sup_keys sup_val_type
                      else Some False))
          else (case sub_tail of None \<Rightarrow> Some True | Some sub_t \<Rightarrow> Some (is_closed_tail sub_t)))"

definition is_record_consistent_subtype :: "consistency \<Rightarrow> consistency" where
  "is_record_consistent_subtype con sub super =
     (case (typevalue_payload sub, typevalue_payload super) of
        (Some sub_payload, Some sup_payload) \<Rightarrow>
          let sub_fields = payload_typevalue_field sub_payload (us ''fields'');
              sup_fields = payload_typevalue_field sup_payload (us ''fields'')
          in (case record_fields_consistent con sub_fields sup_fields of
                Inl r \<Rightarrow> r
              | Inr _ \<Rightarrow> record_tail_consistent con sub_fields (explicit_keys sup_fields)
                  (payload_typevalue_field sub_payload (us ''tail''))
                  (payload_typevalue_field sup_payload (us ''tail'')))
      | _ \<Rightarrow> Some False)"

definition make_typevalue_unknown :: tyval where
  "make_typevalue_unknown = TVariant TYPE_ID_TYPE_VALUE TV_UNKNOWN None"

definition or_gradual :: "tyval option \<Rightarrow> tyval" where
  "or_gradual o' = (case o' of None \<Rightarrow> make_typevalue_unknown | Some v \<Rightarrow> v)"

definition is_fn_consistent_subtype :: "consistency \<Rightarrow> consistency" where
  "is_fn_consistent_subtype con sub super =
     (case (typevalue_payload sub, typevalue_payload super) of
        (Some sub_payload, Some sup_payload) \<Rightarrow>
          let sup_variadic = (payload_bool_field sup_payload (us ''variadic'') = Some True);
              sup_list = map_option collect_indexed_typevalues (payload_typevalue_field sup_payload (us ''params''));
              sup_required = (case sup_list of None \<Rightarrow> 0 | Some l \<Rightarrow> length l)
          in if sup_variadic \<and> sup_required = 0 then Some True
             else case con (or_gradual (payload_typevalue_field sub_payload (us ''return'')))
                           (or_gradual (payload_typevalue_field sup_payload (us ''return''))) of
               Some True \<Rightarrow>
                 (case (payload_typevalue_field sub_payload (us ''params''), sup_list) of
                    (_, None) \<Rightarrow> Some True
                  | (None, Some _) \<Rightarrow> Some sup_variadic
                  | (Some sub_ps, Some ps) \<Rightarrow>
                      let sub_list = collect_indexed_typevalues sub_ps;
                          sub_variadic = (payload_bool_field sub_payload (us ''variadic'') = Some True)
                      in if length sub_list > sup_required then Some False
                         else if \<not> sub_variadic \<and> length sub_list < sup_required then Some False
                         else all_opt (\<lambda>(s, p). con p s) (zip sub_list (take (length sub_list) ps)))
             | r \<Rightarrow> r
      | _ \<Rightarrow> Some True)"

definition is_app_consistent_subtype :: "consistency \<Rightarrow> consistency" where
  "is_app_consistent_subtype con sub super =
     (if typevalue_payload sub = None \<or> typevalue_payload super = None then Some True
      else all_opt (\<lambda>f. con (or_gradual (field_of sub f)) (or_gradual (field_of super f)))
        [us ''op'', us ''arg''])"

definition is_nominal_consistent_subtype :: "tycon_env \<Rightarrow> tyval \<Rightarrow> tyval \<Rightarrow> bool" where
  "is_nominal_consistent_subtype env sub super =
     (typevalue_nominal_id sub = typevalue_nominal_id super
      \<or> (case (typevalue_nominal_id sub, typevalue_nominal_id super) of
           (Some si, Some pi') \<Rightarrow>
             (case env pi' of
                Some def \<Rightarrow> td_constructors def = [] \<and> is_subtype_bas False sub (td_body def) env
              | None \<Rightarrow>
                  (case env si of
                     Some def \<Rightarrow> td_constructors def = [] \<and> is_subtype_bas False (td_body def) super env
                   | None \<Rightarrow> False))
         | _ \<Rightarrow> False))"

text \<open>The tail of the function, where neither side is decomposed further.\<close>

definition consistent_atoms :: "tycon_env \<Rightarrow> bool \<Rightarrow> tyval \<Rightarrow> tyval \<Rightarrow> bool" where
  "consistent_atoms env same sub super =
     (let s = typevalue_ctor_index sub; p = typevalue_ctor_index super in
      if s = Some TV_NOMINAL \<and> p = Some TV_NOMINAL then is_nominal_consistent_subtype env sub super
      else if s = p \<and> s \<in> {Some TV_INT_LIT, Some TV_STR_LIT, Some TV_FLOAT_LIT, Some TV_NOMINAL_VARIANT}
        then is_subtype_bas same sub super env
      else if s \<in> {Some TV_NOMINAL_VARIANT, Some TV_INT_LIT, Some TV_STR_LIT, Some TV_FLOAT_LIT}
          \<and> p = Some TV_NOMINAL
        then is_subtype_bas same sub super env
      else s = Some TV_VAR)"

definition consistent_body :: "tycon_env \<Rightarrow> consistency \<Rightarrow> bool \<Rightarrow> consistency" where
  "consistent_body env con same sub super =
     (let s = typevalue_ctor_index sub; p = typevalue_ctor_index super in
      if s = Some TV_UNKNOWN \<or> s = Some TV_TOP then Some True
      else if p = Some TV_UNKNOWN then Some True
      else if p = Some TV_VAR then Some True
      else if s = Some TV_NOMINAL \<and> p = Some TV_APP then
        (case field_of super (us ''op'') of Some op' \<Rightarrow> con sub op' | None \<Rightarrow> Some True)
      else if s = Some TV_APP \<and> p = Some TV_APP then is_app_consistent_subtype con sub super
      else if s = Some TV_ERROR \<or> p = Some TV_ERROR then Some False
      else if s = Some TV_RECURSIVE \<and> p = Some TV_RECURSIVE then Some (is_subtype_bas same sub super env)
      else if s = Some TV_RECURSIVE then con (unfold_recursive_typevalue sub) super
      else if p = Some TV_RECURSIVE then con sub (unfold_recursive_typevalue super)
      else if s = Some TV_UNION \<and> members_of sub \<noteq> None then
        all_opt (\<lambda>m. con m super) (the (members_of sub))
      else if p = Some TV_UNION \<and> members_of super \<noteq> None then
        any_opt (\<lambda>m. con sub m) (the (members_of super))
      else if p = Some TV_INTER \<and> members_of super \<noteq> None then
        all_opt (\<lambda>m. con sub m) (the (members_of super))
      else if s = Some TV_FN \<and> p = Some TV_FN then is_fn_consistent_subtype con sub super
      else if s = Some TV_NEVER then Some True
      else if p = Some TV_TOP then Some True
      else if s = Some TV_INTER \<and> members_of sub \<noteq> None then
        any_opt (\<lambda>m. con m super) (the (members_of sub))
      else if s = Some TV_RECORD \<and> p = Some TV_RECORD then is_record_consistent_subtype con sub super
      else Some (consistent_atoms env same sub super))"

primrec is_consistent_subtype :: "nat \<Rightarrow> tycon_env \<Rightarrow> bool \<Rightarrow> consistency" where
  "is_consistent_subtype 0 env same = (\<lambda>sub super. None)"
| "is_consistent_subtype (Suc n) env same = consistent_body env (is_consistent_subtype n env False) same"

section \<open>More fuel\<close>

definition below :: "consistency \<Rightarrow> consistency \<Rightarrow> bool" where
  "below con con' \<longleftrightarrow> (\<forall>t u b. con t u = Some b \<longrightarrow> con' t u = Some b)"

lemma belowD: "below con con' \<Longrightarrow> con t u = Some b \<Longrightarrow> con' t u = Some b"
  unfolding below_def by blast

lemma all_opt_mono:
  "\<forall>x \<in> set xs. \<forall>b. f x = Some b \<longrightarrow> g x = Some b \<Longrightarrow> all_opt f xs = Some b \<Longrightarrow> all_opt g xs = Some b"
  by (induction xs) (auto split: option.splits bool.splits)

lemma any_opt_mono:
  "\<forall>x \<in> set xs. \<forall>b. f x = Some b \<longrightarrow> g x = Some b \<Longrightarrow> any_opt f xs = Some b \<Longrightarrow> any_opt g xs = Some b"
  by (induction xs) (auto split: option.splits bool.splits)

lemma uniform_mono:
  assumes "below con con'"
    and "check_sub_fields_against_uniform_consistent con fs ks v = Some b"
  shows "check_sub_fields_against_uniform_consistent con' fs ks v = Some b"
  using assms(2) unfolding check_sub_fields_against_uniform_consistent_def
  by (auto split: option.splits tyval.splits elim!: all_opt_mono [rotated] belowD [OF assms(1)])

lemma fields_mono:
  assumes "below con con'" and "record_fields_consistent con fs gs \<noteq> Inl None"
  shows "record_fields_consistent con' fs gs = record_fields_consistent con fs gs"
proof -
  have step: "all_opt (field_consistent con es) xs = Some r \<Longrightarrow> all_opt (field_consistent con' es) xs = Some r"
    for es xs r
    by (erule all_opt_mono [rotated])
      (auto simp: field_consistent_def split: option.splits intro: belowD [OF assms(1)])
  show ?thesis
    using assms(2) unfolding record_fields_consistent_def
    by (auto split: option.splits tyval.splits bool.splits dest: step)
qed

lemma tail_mono:
  assumes "below con con'" and "record_tail_consistent con fs ks st pt = Some b"
  shows "record_tail_consistent con' fs ks st pt = Some b"
  using assms(2) unfolding record_tail_consistent_def
  by (auto split: option.splits if_splits intro: belowD [OF assms(1)] uniform_mono [OF assms(1)])

lemma record_mono:
  assumes "below con con'"
  shows "below (is_record_consistent_subtype con) (is_record_consistent_subtype con')"
  unfolding below_def is_record_consistent_subtype_def
  by (auto simp: Let_def fields_mono [OF assms] split: option.splits sum.splits
      dest: tail_mono [OF assms])

lemma fn_mono:
  assumes "below con con'"
  shows "below (is_fn_consistent_subtype con) (is_fn_consistent_subtype con')"
proof -
  have step: "all_opt (\<lambda>(s, p). con p s) xs = Some r \<Longrightarrow> all_opt (\<lambda>(s, p). con' p s) xs = Some r" for xs r
    by (erule all_opt_mono [rotated]) (auto intro: belowD [OF assms])
  show ?thesis
    unfolding below_def is_fn_consistent_subtype_def
    by (auto simp: Let_def split: option.splits bool.splits if_splits dest: belowD [OF assms] step)
qed

lemma app_mono:
  assumes "below con con'"
  shows "below (is_app_consistent_subtype con) (is_app_consistent_subtype con')"
  unfolding below_def is_app_consistent_subtype_def
  by (auto simp del: all_opt.simps split: if_splits elim!: all_opt_mono [rotated] dest: belowD [OF assms])

lemma body_mono:
  assumes "below con con'"
  shows "below (consistent_body env con same) (consistent_body env con' same)"
proof -
  have more: "con t u = Some b \<Longrightarrow> con' t u = Some b" for t u b by (rule belowD [OF assms])
  have all_left: "all_opt (\<lambda>m. con m u) ms = Some b \<Longrightarrow> all_opt (\<lambda>m. con' m u) ms = Some b" for ms u b
    by (erule all_opt_mono [rotated]) (auto intro: more)
  have all_right: "all_opt (\<lambda>m. con u m) ms = Some b \<Longrightarrow> all_opt (\<lambda>m. con' u m) ms = Some b" for ms u b
    by (erule all_opt_mono [rotated]) (auto intro: more)
  have any_left: "any_opt (\<lambda>m. con m u) ms = Some b \<Longrightarrow> any_opt (\<lambda>m. con' m u) ms = Some b" for ms u b
    by (erule any_opt_mono [rotated]) (auto intro: more)
  have any_right: "any_opt (\<lambda>m. con u m) ms = Some b \<Longrightarrow> any_opt (\<lambda>m. con' u m) ms = Some b" for ms u b
    by (erule any_opt_mono [rotated]) (auto intro: more)
  note parts = more all_left all_right any_left any_right belowD [OF record_mono [OF assms]]
    belowD [OF fn_mono [OF assms]] belowD [OF app_mono [OF assms]]
  show ?thesis
    unfolding below_def consistent_body_def Let_def
    apply (intro allI impI)
    apply (simp only: split: if_split_asm option.split_asm)
    apply (simp_all add: parts)
    done
qed

lemma consistent_more_step: "below (is_consistent_subtype n env same) (is_consistent_subtype (Suc n) env same)"
proof (induction n arbitrary: same)
  case 0
  then show ?case by (simp add: below_def)
next
  case (Suc n)
  show ?case
    unfolding is_consistent_subtype.simps(2) [of "Suc n"] is_consistent_subtype.simps(2) [of n]
    using body_mono [OF Suc] by (simp only: is_consistent_subtype.simps)
qed

lemma consistent_more:
  assumes "n \<le> m" and "is_consistent_subtype n env same t u = Some b"
  shows "is_consistent_subtype m env same t u = Some b"
  using assms by (induction m rule: dec_induct) (auto dest: belowD [OF consistent_more_step])

section \<open>Fuel enough for types without recursive parts\<close>

fun rec_free :: "tyval \<Rightarrow> bool" where
  "rec_free (TVariant _ c p) = (c \<noteq> TV_RECURSIVE \<and> (case p of None \<Rightarrow> True | Some v \<Rightarrow> rec_free v))"
| "rec_free (TDict es) = (\<forall>(k, v) \<in> set es. rec_free v)"
| "rec_free _ = True"

text \<open>A smaller type, without recursive parts if the whole has none.\<close>

definition part :: "tyval \<Rightarrow> tyval \<Rightarrow> bool" where
  "part v tv \<longleftrightarrow> size v < size tv \<and> (rec_free tv \<longrightarrow> rec_free v)"

lemma part_trans: "part u v \<Longrightarrow> part v w \<Longrightarrow> part u w"
  unfolding part_def by auto

lemma part_payload: "typevalue_payload tv = Some p \<Longrightarrow> part p tv"
  unfolding part_def using size_payload [of tv p]
  by (auto simp: typevalue_payload_def split: tyval.splits)

lemma part_entry: "(k, v) \<in> set es \<Longrightarrow> part v (TDict es)"
  unfolding part_def using size_entry by auto

lemma part_get: "dict_get es k = Some v \<Longrightarrow> part v (TDict es)"
  unfolding dict_get_def by (auto dest!: find_in part_entry)

lemma part_field: "payload_typevalue_field p f = Some v \<Longrightarrow> part v p"
  unfolding payload_typevalue_field_def payload_field_def by (auto split: tyval.splits dest: part_get)

lemma part_field_of: "field_of tv f = Some v \<Longrightarrow> part v tv"
  unfolding field_of_def by (auto simp: bind_eq_Some_conv intro: part_trans [OF part_field part_payload])

lemma part_indexed: "v \<in> set (indexed_values es) \<Longrightarrow> part v (TDict es)"
  using indexed_values_in part_entry by blast

lemma part_collect: "v \<in> set (collect_indexed_typevalues tv) \<Longrightarrow> part v tv"
  unfolding collect_indexed_typevalues_def by (auto split: tyval.splits intro: part_indexed)

lemma part_payload_member:
  assumes "m \<in> set (payload_members p)"
  shows "part m p"
proof -
  obtain v where v: "payload_field p (us ''members'') = Some v" "m \<in> set (collect_indexed_typevalues v)"
    using assms unfolding payload_members_def collect_indexed_typevalues_def
    by (cases "payload_field p (us ''members'')") auto
  show ?thesis
    using part_trans [OF part_collect [OF v(2)] part_field [unfolded payload_typevalue_field_def, OF v(1)]] .
qed

lemma part_member: "members_of tv = Some ms \<Longrightarrow> m \<in> set ms \<Longrightarrow> part m tv"
  unfolding members_of_def using part_trans [OF part_payload_member part_payload] by auto

lemmas parts = part_payload part_entry part_get part_field part_field_of part_collect part_member

text \<open>A check that returns on all pairs of smaller size.\<close>

definition returns :: "consistency \<Rightarrow> tyval \<Rightarrow> tyval \<Rightarrow> bool" where
  "returns con t u \<longleftrightarrow> (\<forall>t' u'. rec_free t' \<and> rec_free u' \<and> size t' + size u' < size t + size u \<longrightarrow> con t' u' \<noteq> None)"

lemma returns_left: "returns con t u \<Longrightarrow> rec_free t \<Longrightarrow> rec_free u \<Longrightarrow> part t' t \<Longrightarrow> con t' u \<noteq> None"
  unfolding returns_def part_def by auto

lemma returns_right: "returns con t u \<Longrightarrow> rec_free t \<Longrightarrow> rec_free u \<Longrightarrow> part u' u \<Longrightarrow> con t u' \<noteq> None"
  unfolding returns_def part_def by auto

lemma returns_both:
  "returns con t u \<Longrightarrow> rec_free t \<Longrightarrow> rec_free u \<Longrightarrow> part t' t \<Longrightarrow> part u' u \<Longrightarrow> con t' u' \<noteq> None"
  unfolding returns_def part_def by auto

lemma returns_swapped:
  "returns con t u \<Longrightarrow> rec_free t \<Longrightarrow> rec_free u \<Longrightarrow> part t' t \<Longrightarrow> part u' u \<Longrightarrow> con u' t' \<noteq> None"
  unfolding returns_def part_def by auto

lemma all_opt_returns: "\<forall>x \<in> set xs. f x \<noteq> None \<Longrightarrow> all_opt f xs \<noteq> None"
  by (induction xs) (auto split: option.splits bool.splits)

lemma any_opt_returns: "\<forall>x \<in> set xs. f x \<noteq> None \<Longrightarrow> any_opt f xs \<noteq> None"
  by (induction xs) (auto split: option.splits bool.splits)

lemma uniform_returns:
  assumes "\<And>es k v. fs = Some (TDict es) \<Longrightarrow> (k, v) \<in> set es \<Longrightarrow> con v u \<noteq> None"
  shows "check_sub_fields_against_uniform_consistent con fs ks u \<noteq> None"
  unfolding check_sub_fields_against_uniform_consistent_def
  by (auto simp del: not_None_eq split: option.splits tyval.splits intro!: all_opt_returns dest: assms)

lemma fields_return:
  assumes "\<And>es k v es' k' v'. fs = Some (TDict es) \<Longrightarrow> (k, v) \<in> set es \<Longrightarrow>
      gs = Some (TDict es') \<Longrightarrow> (k', v') \<in> set es' \<Longrightarrow> con v v' \<noteq> None"
  shows "record_fields_consistent con fs gs \<noteq> Inl None"
proof -
  have "all_opt (field_consistent con es) es' \<noteq> None"
    if both: "fs = Some (TDict es)" "gs = Some (TDict es')" for es es'
  proof (rule all_opt_returns, rule ballI)
    fix x assume x: "x \<in> set es'"
    obtain key v' where pair: "x = (key, v')" by (cases x)
    show "field_consistent con es x \<noteq> None"
    proof (cases "dict_get es key")
      case (Some v)
      then obtain k where "(k, v) \<in> set es" unfolding dict_get_def by (auto dest!: find_in)
      then show ?thesis using assms [OF both(1) _ both(2)] x Some unfolding field_consistent_def pair by simp
    qed (simp add: field_consistent_def pair)
  qed
  then show ?thesis
    unfolding record_fields_consistent_def
    by (auto simp del: not_None_eq split: option.split tyval.split bool.split)
qed

lemma tail_returns:
  assumes "\<And>v. con_fields v \<Longrightarrow> check_sub_fields_against_uniform_consistent con fs ks v \<noteq> None"
    and "\<And>t u v w. st = Some t \<Longrightarrow> pt = Some u \<Longrightarrow> field_of t (us ''value-type'') = Some v \<Longrightarrow>
      field_of u (us ''value-type'') = Some w \<Longrightarrow> con v w \<noteq> None"
    and "\<And>u w. pt = Some u \<Longrightarrow> field_of u (us ''value-type'') = Some w \<Longrightarrow> con_fields w"
  shows "record_tail_consistent con fs ks st pt \<noteq> None"
  using assms unfolding record_tail_consistent_def
  by (auto simp del: not_None_eq split: option.splits)

lemma record_returns:
  assumes "returns con t u" "rec_free t" "rec_free u"
  shows "is_record_consistent_subtype con t u \<noteq> None"
proof (cases "typevalue_payload t = None \<or> typevalue_payload u = None")
  case True
  then show ?thesis unfolding is_record_consistent_subtype_def by (auto split: option.split)
next
  case False
  then obtain p q where payload: "typevalue_payload t = Some p" "typevalue_payload u = Some q" by auto
  have left: "part v t" if "payload_typevalue_field p f = Some v" for v f
    using that payload part_trans part_field part_payload by blast
  have right: "part v u" if "payload_typevalue_field q f = Some v" for v f
    using that payload part_trans part_field part_payload by blast
  have entry: "part v w" if "part (TDict es) w" "(k, v) \<in> set es" for k v es w
    using that part_trans part_entry by blast
  note con = returns_both [OF assms]
  let ?fs = "payload_typevalue_field p (us ''fields'')"
  have "record_fields_consistent con ?fs (payload_typevalue_field q (us ''fields'')) \<noteq> Inl None"
    by (rule fields_return) (rule con [OF entry [OF left] entry [OF right]])
  moreover have "record_tail_consistent con ?fs ks (payload_typevalue_field p (us ''tail''))
      (payload_typevalue_field q (us ''tail'')) \<noteq> None" for ks
  proof (rule tail_returns [where con_fields = "\<lambda>v. part v u"])
    show "check_sub_fields_against_uniform_consistent con ?fs ks v \<noteq> None" if "part v u" for v
      by (rule uniform_returns) (rule con [OF entry [OF left] that])
    show "con v w \<noteq> None" if "payload_typevalue_field p (us ''tail'') = Some t'"
        "payload_typevalue_field q (us ''tail'') = Some u'" "field_of t' (us ''value-type'') = Some v"
        "field_of u' (us ''value-type'') = Some w" for t' u' v w
      using con part_trans [OF part_field_of left] part_trans [OF part_field_of right] that by blast
    show "part w u" if "payload_typevalue_field q (us ''tail'') = Some u'"
        "field_of u' (us ''value-type'') = Some w" for u' w
      using part_trans [OF part_field_of right] that by blast
  qed
  ultimately show ?thesis
    using payload unfolding is_record_consistent_subtype_def by (auto simp: Let_def split: sum.split)
qed

text \<open>A part of a type, or the gradual type in its place.\<close>

definition part_or_gradual :: "tyval \<Rightarrow> tyval \<Rightarrow> bool" where
  "part_or_gradual v tv \<longleftrightarrow> part v tv \<or> v = make_typevalue_unknown"

lemma gradual_field: "part_or_gradual (or_gradual (field_of tv f)) tv"
  unfolding part_or_gradual_def or_gradual_def by (auto split: option.split intro: part_field_of)

lemma gradual_payload_field:
  "typevalue_payload tv = Some p \<Longrightarrow> part_or_gradual (or_gradual (payload_typevalue_field p f)) tv"
  using gradual_field [of tv f] by (simp add: field_of_def)

text \<open>The check of a gradual type returns at once.\<close>

definition gradual_returns :: "consistency \<Rightarrow> bool" where
  "gradual_returns con \<longleftrightarrow> (\<forall>t. con make_typevalue_unknown t \<noteq> None \<and> con t make_typevalue_unknown \<noteq> None)"

lemma returns_gradual:
  assumes "returns con t u" "gradual_returns con" "rec_free t" "rec_free u"
    and "part_or_gradual v t" "part_or_gradual w u"
  shows "con v w \<noteq> None"
  using assms returns_both [OF assms(1)] unfolding part_or_gradual_def gradual_returns_def by blast

lemma app_returns:
  assumes "returns con t u" "gradual_returns con" "rec_free t" "rec_free u"
  shows "is_app_consistent_subtype con t u \<noteq> None"
  unfolding is_app_consistent_subtype_def
  using returns_gradual [OF assms gradual_field gradual_field]
  by (auto simp del: not_None_eq all_opt.simps intro!: all_opt_returns)

lemma fn_returns:
  assumes "returns con t u" "gradual_returns con" "rec_free t" "rec_free u"
  shows "is_fn_consistent_subtype con t u \<noteq> None"
proof (cases "typevalue_payload t = None \<or> typevalue_payload u = None")
  case True
  then show ?thesis unfolding is_fn_consistent_subtype_def by (auto split: option.split)
next
  case False
  then obtain p q where payload: "typevalue_payload t = Some p" "typevalue_payload u = Some q" by auto
  have "con (or_gradual (payload_typevalue_field p (us ''return'')))
      (or_gradual (payload_typevalue_field q (us ''return''))) \<noteq> None"
    using returns_gradual [OF assms] gradual_payload_field payload by blast
  moreover have "all_opt (\<lambda>(s, r). con r s)
      (zip (collect_indexed_typevalues sp) (take k (collect_indexed_typevalues pp))) \<noteq> None"
    if fs: "payload_typevalue_field p (us ''params'') = Some sp"
      "payload_typevalue_field q (us ''params'') = Some pp" for sp pp k
  proof (rule all_opt_returns, rule ballI)
    fix x assume "x \<in> set (zip (collect_indexed_typevalues sp) (take k (collect_indexed_typevalues pp)))"
    then have "fst x \<in> set (collect_indexed_typevalues sp)" "snd x \<in> set (collect_indexed_typevalues pp)"
      using set_zip_leftD [of "fst x" "snd x"] set_zip_rightD [of "fst x" "snd x"] in_set_takeD
      by (metis prod.collapse)+
    then have "part (fst x) t" "part (snd x) u"
      using part_trans part_collect part_trans [OF part_field part_payload] fs payload by blast+
    then show "(\<lambda>(s, r). con r s) x \<noteq> None"
      using returns_swapped [OF assms(1,3,4)] by (simp add: case_prod_beta del: not_None_eq)
  qed
  ultimately show ?thesis
    using payload unfolding is_fn_consistent_subtype_def
    by (auto simp del: not_None_eq simp: Let_def split: option.split bool.split)
qed

lemma body_returns:
  assumes "returns con t u" "gradual_returns con" "rec_free t" "rec_free u"
  shows "consistent_body env con same t u \<noteq> None"
proof -
  note smaller = returns_left [OF assms(1,3,4)] returns_right [OF assms(1,3,4)]
  have no_rec: "typevalue_ctor_index t \<noteq> Some TV_RECURSIVE" "typevalue_ctor_index u \<noteq> Some TV_RECURSIVE"
    using assms(3,4) by (auto simp: typevalue_ctor_index_def split: tyval.splits)
  have "all_opt (\<lambda>m. con m u) ms \<noteq> None" "any_opt (\<lambda>m. con m u) ms \<noteq> None"
    if "members_of t = Some ms" for ms
    by (rule all_opt_returns any_opt_returns, use smaller(1) part_member that in blast)+
  moreover have "all_opt (\<lambda>m. con t m) ms \<noteq> None" "any_opt (\<lambda>m. con t m) ms \<noteq> None"
    if "members_of u = Some ms" for ms
    by (rule all_opt_returns any_opt_returns, use smaller(2) part_member that in blast)+
  moreover have "con t op' \<noteq> None" if "field_of u f = Some op'" for op' f
    using that smaller part_field_of by blast
  ultimately show ?thesis
    unfolding consistent_body_def Let_def
    using no_rec app_returns [OF assms] fn_returns [OF assms] record_returns [OF assms(1,3,4)]
    by (auto simp del: not_None_eq split: option.split)
qed

lemma gradual_returns_consistent: "gradual_returns (is_consistent_subtype (Suc n) env same)"
  unfolding gradual_returns_def
  by (auto simp: consistent_body_def Let_def make_typevalue_unknown_def typevalue_ctor_index_def)

lemma consistent_fuel:
  assumes "rec_free t" "rec_free u" "size t + size u < n"
  shows "is_consistent_subtype (Suc n) env same t u \<noteq> None"
  using assms
proof (induction n arbitrary: t u same)
  case (Suc n)
  have "returns (is_consistent_subtype (Suc n) env False) t u"
    unfolding returns_def using Suc by auto
  then show ?case
    unfolding is_consistent_subtype.simps(2) [of "Suc n"]
    using body_returns gradual_returns_consistent Suc.prems by blast
qed simp

text \<open>
  C16: Consistent subtyping returns on all types without recursive parts: with fuel one above
  the sizes of the two types there is a result, and more fuel gives the same one.
\<close>

theorem consistent_terminates:
  assumes "rec_free t" "rec_free u"
  shows "\<exists>b. \<forall>n \<ge> size t + size u + 2. is_consistent_subtype n env same t u = Some b"
proof -
  obtain b where "is_consistent_subtype (Suc (size t + size u + 1)) env same t u = Some b"
    using consistent_fuel [OF assms, of "size t + size u + 1"] by auto
  then show ?thesis using consistent_more by fastforce
qed

theorem consistent_terminates_witness:
  "\<exists>b. \<forall>n \<ge> 20. is_consistent_subtype n Map.empty False
     (TVariant 50 TV_INT_LIT (Some (TDict [(HStr (us ''value''), TInt 3)]))) (TVariant 50 TV_TOP None) = Some b"
  using consistent_terminates [of "TVariant 50 TV_INT_LIT (Some (TDict [(HStr (us ''value''), TInt 3)]))"
      "TVariant 50 TV_TOP None" Map.empty False]
  by (auto elim: allE intro: order.trans)

text \<open>
  A recursive type that is its own reference has no result at any fuel: the code recurses
  without end on it.
\<close>

lemma consistent_diverges:
  defines "loop \<equiv> TVariant 50 TV_RECURSIVE (Some (TDict [(HStr (us ''body''),
      TVariant 50 TV_RECURSIVE_REF (Some (TDict [(HStr (us ''depth''), TInt 0)])))]))"
  shows "is_consistent_subtype n env same loop (TVariant 50 TV_TOP None) = None"
proof -
  have "unfold_recursive_typevalue loop = loop"
    unfolding loop_def
    by (simp add: unfold_recursive_typevalue_def typevalue_ctor_index_def field_of_def typevalue_payload_def
        payload_typevalue_field_def payload_field_def dict_get_def or_same_def subst_ref.simps
        payload_int_field_def)
  moreover have "typevalue_ctor_index loop = Some TV_RECURSIVE"
    by (simp add: loop_def typevalue_ctor_index_def)
  ultimately show ?thesis
    by (induction n arbitrary: same) (simp_all add: consistent_body_def typevalue_ctor_index_def [of "TVariant _ _ _"])
qed

end
