(* ===== verification/Subtyping_Sound.thy ===== *)
theory Subtyping_Sound
  imports Consistency
begin

text \<open>
  What the answers of the subtype checks mean. Types without variables, functions,
  applications and recursion are given the set of ground values they describe; a positive
  answer is then an inclusion of these sets, for records at any depth. For the combinations of
  nominal types and integer literals the answer is the inclusion.
\<close>

section \<open>Ground values and their types\<close>

datatype gval =
  GInt int
| GFloat f64
| GStr str
| GOther u64
| GRec "(hashable_value \<times> gval) list"

fun value_type :: "gval \<Rightarrow> u64 option" where
  "value_type (GInt _) = Some TYPE_ID_INT"
| "value_type (GFloat _) = Some TYPE_ID_FLOAT"
| "value_type (GStr _) = Some TYPE_ID_STRING"
| "value_type (GOther i) = (if i \<in> {TYPE_ID_INT, TYPE_ID_FLOAT, TYPE_ID_STRING} then None else Some i)"
| "value_type (GRec _) = None"

function inhabits :: "gval \<Rightarrow> tyval \<Rightarrow> bool" where
  "inhabits v tv =
     (case typevalue_ctor_index tv of
        None \<Rightarrow> True
      | Some c \<Rightarrow>
          if c = TV_TOP \<or> c = TV_UNKNOWN then True
          else if c = TV_NEVER \<or> c = TV_ERROR then False
          else if c = TV_UNION then
            (case members_of tv of None \<Rightarrow> False | Some ms \<Rightarrow> \<exists>m \<in> set ms. inhabits v m)
          else if c = TV_INTER then
            (case members_of tv of None \<Rightarrow> True | Some ms \<Rightarrow> \<forall>m \<in> set ms. inhabits v m)
          else if c = TV_NEG then
            (case negated_of tv of None \<Rightarrow> True | Some inner \<Rightarrow> \<not> inhabits v inner)
          else if c = TV_NOMINAL then
            (case typevalue_nominal_id tv of None \<Rightarrow> False | Some i \<Rightarrow> value_type v = Some i)
          else if c = TV_INT_LIT then
            (case literal_value payload_int_field tv of None \<Rightarrow> False | Some n \<Rightarrow> v = GInt n)
          else if c = TV_FLOAT_LIT then
            (case literal_value payload_float_field_bits tv of None \<Rightarrow> False | Some x \<Rightarrow> v = GFloat x)
          else if c = TV_STR_LIT then
            (case literal_value payload_string_field tv of None \<Rightarrow> False | Some s \<Rightarrow> v = GStr s)
          else if c = TV_RECORD then
            (case v of
               GRec fs \<Rightarrow>
                 (case field_of tv (us ''fields'') of
                    None \<Rightarrow> True
                  | Some fv \<Rightarrow>
                      (case entries_of fv of
                         None \<Rightarrow> True
                       | Some es \<Rightarrow> \<forall>e \<in> set es. case dict_get fs (fst e) of
                           None \<Rightarrow> False | Some x \<Rightarrow> inhabits x (snd e)))
             | _ \<Rightarrow> False)
          else False)"
  by pat_completeness auto
termination
  by (relation "measure (\<lambda>(_, tv). size tv)")
    (auto dest: size_members_of size_negated_of intro: size_field_entry)

declare inhabits.simps [simp del]

text \<open>
  The types of the theorems; the types of record fields are also kept from meeting the limit
  on conjunctions.
\<close>

definition plain_key :: "hashable_value \<Rightarrow> bool" where
  "plain_key k = (case k of HStr _ \<Rightarrow> True | HInt _ \<Rightarrow> True | _ \<Rightarrow> False)"

lemma plain_key_eq: "plain_key k \<Longrightarrow> hv_eq k k' \<longleftrightarrow> k' = k"
  unfolding plain_key_def by (cases k; cases k') auto

lemma dict_get_plain:
  assumes "plain_key k" "dict_get es k = Some v"
  shows "(k, v) \<in> set es"
proof -
  obtain e where e: "find (\<lambda>(k', _). hv_eq k k') es = Some e" "snd e = v"
    using assms(2) unfolding dict_get_def by auto
  then have "hv_eq k (fst e)" "e \<in> set es" by (auto simp: find_Some_iff case_prod_beta)
  then show ?thesis using assms(1) e(2) by (metis plain_key_eq prod.collapse)
qed

function first_order :: "tyval \<Rightarrow> bool" where
  "first_order tv =
     (case typevalue_ctor_index tv of
        None \<Rightarrow> True
      | Some c \<Rightarrow>
          if c \<in> {TV_TOP, TV_UNKNOWN, TV_NEVER, TV_ERROR} then True
          else if c = TV_UNION \<or> c = TV_INTER then
            (case members_of tv of None \<Rightarrow> True | Some ms \<Rightarrow> \<forall>m \<in> set ms. first_order m)
          else if c = TV_NEG then
            (case negated_of tv of None \<Rightarrow> True | Some inner \<Rightarrow> first_order inner)
          else if c = TV_NOMINAL then typevalue_nominal_id tv \<noteq> None
          else if c = TV_INT_LIT then literal_value payload_int_field tv \<noteq> None
          else if c = TV_FLOAT_LIT then literal_value payload_float_field_bits tv \<noteq> None
          else if c = TV_STR_LIT then literal_value payload_string_field tv \<noteq> None
          else if c = TV_RECORD then
            field_of tv (us ''tail'') = None
            \<and> (case field_of tv (us ''fields'') of
                 None \<Rightarrow> True
               | Some fv \<Rightarrow>
                   (case entries_of fv of
                      None \<Rightarrow> False
                    | Some es \<Rightarrow> \<forall>e \<in> set es. plain_key (fst e) \<and> first_order (snd e) \<and> \<not> meets_limit (snd e)))
          else False)"
  by pat_completeness auto
termination
  by (relation "measure size") (auto dest: size_members_of size_negated_of intro: size_field_entry)

declare first_order.simps [simp del]

definition atom_ctors :: "nat set" where
  "atom_ctors = {TV_NOMINAL, TV_INT_LIT, TV_FLOAT_LIT, TV_STR_LIT, TV_RECORD}"

definition fo_atom :: "tyval \<Rightarrow> bool" where
  "fo_atom a \<longleftrightarrow> first_order a \<and> typevalue_ctor_index a \<in> Some ` atom_ctors"

lemma inhabits_den: "den (inhabits v) tv \<longleftrightarrow> inhabits v tv"
proof (induction tv rule: measure_induct_rule [of size])
  case (less tv)
  have "den (inhabits v) m \<longleftrightarrow> inhabits v m" if "members_of tv = Some ms" "m \<in> set ms" for m ms
    using less size_members_of that by blast
  moreover have "den (inhabits v) m \<longleftrightarrow> inhabits v m" if "negated_of tv = Some m" for m
    using less size_negated_of that by blast
  ultimately show ?case
    unfolding den.simps [of _ tv] by (auto simp: inhabits.simps [of v tv] split: option.split)
qed

section \<open>The atoms of a normal form\<close>

fun content :: "signed_atom \<Rightarrow> tyval" where
  "content (Pos a) = a"
| "content (Neg a) = a"

definition atoms_in :: "(tyval \<Rightarrow> bool) \<Rightarrow> rdnf \<Rightarrow> bool" where
  "atoms_in P r \<longleftrightarrow> (\<forall>c \<in> set r. \<forall>a \<in> set c. P (content a))"

lemma content_negate [simp]: "content (negate_atom a) = content a"
  by (cases a) auto

lemma atoms_distribute: "atoms_in P l \<Longrightarrow> atoms_in P r \<Longrightarrow> atoms_in P (distribute l r)"
  unfolding atoms_in_def distribute_def by auto

lemma atoms_fold: "atoms_in P r \<Longrightarrow> \<forall>s \<in> set ss. atoms_in P s \<Longrightarrow> atoms_in P (foldl distribute r ss)"
  by (induction ss arbitrary: r) (auto intro: atoms_distribute)

lemma atoms_negate_loop: "atoms_in P r \<Longrightarrow> atoms_in P cs \<Longrightarrow> atoms_in P (negate_loop r cs)"
proof (induction r cs rule: negate_loop.induct)
  case (2 result c cs)
  have "atoms_in P (map (\<lambda>a. [negate_atom a]) c)" "atoms_in P cs"
    using 2(3) unfolding atoms_in_def by auto
  then show ?case using 2 by (auto intro: atoms_distribute simp: atoms_in_def [of P "[]"])
qed simp

lemma atoms_negate: "atoms_in P r \<Longrightarrow> atoms_in P (negate_rdnf r)"
  unfolding negate_rdnf_def by (auto intro!: atoms_negate_loop simp: atoms_in_def [of P "[[]]"])

lemma atoms_to_rdnf:
  assumes "\<And>a. Q a \<Longrightarrow> typevalue_ctor_index a \<notin> Some ` {TV_TOP, TV_NEVER, TV_UNKNOWN, TV_ERROR, TV_UNION, TV_INTER, TV_NEG}
      \<Longrightarrow> typevalue_ctor_index a \<noteq> None \<Longrightarrow> P a"
    and "\<And>a ms m. Q a \<Longrightarrow> typevalue_ctor_index a \<in> {Some TV_UNION, Some TV_INTER} \<Longrightarrow>
      members_of a = Some ms \<Longrightarrow> m \<in> set ms \<Longrightarrow> Q m"
    and "\<And>a m. Q a \<Longrightarrow> typevalue_ctor_index a = Some TV_NEG \<Longrightarrow> negated_of a = Some m \<Longrightarrow> Q m"
  shows "Q tv \<Longrightarrow> atoms_in P (to_rdnf tv)"
proof (induction tv rule: measure_induct_rule [of size])
  case (less tv)
  show ?case
  proof (cases rule: type_shape [of tv])
    case unit
    then show ?thesis using assms(1) [OF less.prems]
      by (auto simp: to_rdnf.simps [of tv] atoms_in_def split: option.split)
  next
    case (union ms)
    then have "atoms_in P (to_rdnf m)" if "m \<in> set ms" for m
      using less size_members_of assms(2) that by blast
    then show ?thesis using union by (auto simp: to_rdnf.simps [of tv] atoms_in_def)
  next
    case (inter m ms)
    then have "atoms_in P (to_rdnf x)" if "x \<in> set (m # ms)" for x
      using less size_members_of assms(2) that by blast
    then show ?thesis using inter by (auto simp: to_rdnf.simps [of tv] intro!: atoms_fold)
  next
    case (neg inner)
    then have "atoms_in P (to_rdnf inner)" using less size_negated_of assms(3) by blast
    then show ?thesis using neg by (auto simp: to_rdnf.simps [of tv] intro!: atoms_negate)
  qed (auto simp: to_rdnf.simps [of tv] atoms_in_def)
qed

lemma first_order_parts:
  "first_order a \<Longrightarrow> typevalue_ctor_index a \<in> {Some TV_UNION, Some TV_INTER} \<Longrightarrow> members_of a = Some ms
     \<Longrightarrow> m \<in> set ms \<Longrightarrow> first_order m"
  "first_order a \<Longrightarrow> typevalue_ctor_index a = Some TV_NEG \<Longrightarrow> negated_of a = Some x \<Longrightarrow> first_order x"
  by (auto simp: first_order.simps [of a])

lemma first_order_atom:
  "first_order a \<Longrightarrow> typevalue_ctor_index a \<noteq> None \<Longrightarrow>
     typevalue_ctor_index a \<notin> Some ` {TV_TOP, TV_NEVER, TV_UNKNOWN, TV_ERROR, TV_UNION, TV_INTER, TV_NEG}
     \<Longrightarrow> fo_atom a"
  unfolding fo_atom_def atom_ctors_def
  by (simp add: first_order.simps [of a]) (auto split: option.split_asm if_split_asm)

lemma fo_atoms_to_rdnf: "first_order tv \<Longrightarrow> atoms_in fo_atom (to_rdnf tv)"
  by (rule atoms_to_rdnf [of first_order]) (auto intro: first_order_parts first_order_atom)

section \<open>Disjoint atoms\<close>

text \<open>The shapes of an atom, with what inhabits it.\<close>

lemma fo_atom_shape:
  assumes "fo_atom a"
  obtains (nominal) i where "typevalue_ctor_index a = Some TV_NOMINAL" "typevalue_nominal_id a = Some i"
    "\<And>v. inhabits v a \<longleftrightarrow> value_type v = Some i"
  | (int_lit) n where "typevalue_ctor_index a = Some TV_INT_LIT"
    "literal_value payload_int_field a = Some n" "\<And>v. inhabits v a \<longleftrightarrow> v = GInt n"
  | (float_lit) x where "typevalue_ctor_index a = Some TV_FLOAT_LIT"
    "literal_value payload_float_field_bits a = Some x" "\<And>v. inhabits v a \<longleftrightarrow> v = GFloat x"
  | (str_lit) s where "typevalue_ctor_index a = Some TV_STR_LIT"
    "literal_value payload_string_field a = Some s" "\<And>v. inhabits v a \<longleftrightarrow> v = GStr s"
  | (rec_type) "typevalue_ctor_index a = Some TV_RECORD" "\<And>v. inhabits v a \<Longrightarrow> value_type v = None"
proof -
  have fo: "first_order a" and "typevalue_ctor_index a \<in> Some ` atom_ctors"
    using assms by (auto simp: fo_atom_def)
  then consider "typevalue_ctor_index a = Some TV_NOMINAL" | "typevalue_ctor_index a = Some TV_INT_LIT"
    | "typevalue_ctor_index a = Some TV_FLOAT_LIT" | "typevalue_ctor_index a = Some TV_STR_LIT"
    | "typevalue_ctor_index a = Some TV_RECORD"
    unfolding atom_ctors_def by auto
  then show thesis
  proof cases
    case 1
    then show ?thesis using fo nominal by (auto simp: first_order.simps [of a] inhabits.simps [of _ a])
  next
    case 2
    then show ?thesis using fo int_lit by (auto simp: first_order.simps [of a] inhabits.simps [of _ a])
  next
    case 3
    then show ?thesis using fo float_lit by (auto simp: first_order.simps [of a] inhabits.simps [of _ a])
  next
    case 4
    then show ?thesis using fo str_lit by (auto simp: first_order.simps [of a] inhabits.simps [of _ a])
  next
    case 5
    then show ?thesis using rec_type by (auto simp: inhabits.simps [of _ a] split: gval.splits)
  qed
qed

lemma disjoint_sound:
  assumes "fo_atom a" "fo_atom b" "atoms_are_disjoint a b"
  shows "\<not> (inhabits v a \<and> inhabits v b)"
  using assms(3)
  by (cases rule: fo_atom_shape [OF assms(1)]; cases rule: fo_atom_shape [OF assms(2)])
    (auto simp: atoms_are_disjoint.simps [of a b])

section \<open>Loops\<close>

lemma any_check_true: "fst (any_check f xs sigma) \<Longrightarrow> \<exists>x \<in> set xs. \<exists>sigma'. fst (f x sigma')"
proof (induction xs arbitrary: sigma)
  case (Cons y ys)
  obtain b sigma' where y: "f y sigma = (b, sigma')" by (cases "f y sigma")
  show ?case
  proof (cases b)
    case True
    then show ?thesis using y by (metis fst_conv list.set_intros(1))
  next
    case False
    then show ?thesis using Cons y by auto
  qed
qed simp

lemma any_check_false: "\<not> fst (any_check f xs sigma) \<Longrightarrow> x \<in> set xs \<Longrightarrow> \<exists>sigma'. \<not> fst (f x sigma')"
proof (induction xs arbitrary: sigma)
  case (Cons y ys)
  obtain b sigma' where y: "f y sigma = (b, sigma')" by (cases "f y sigma")
  with Cons.prems have "\<not> b" "\<not> fst (any_check f ys sigma')" by (auto split: bool.splits)
  then show ?case using Cons y by (metis fst_conv set_ConsD)
qed simp

lemma some_pair_true: "some_pair f xs \<Longrightarrow> \<exists>x \<in> set xs. \<exists>y \<in> set xs. f x y"
  by (induction xs) (auto simp: list_ex_iff)

lemma some_pair_false: "\<not> some_pair f xs \<Longrightarrow> x \<in> set xs \<Longrightarrow> y \<in> set xs \<Longrightarrow> x = y \<or> \<not> f x y \<or> \<not> f y x"
  by (induction xs) (auto simp: list_ex_iff)

lemma positives_iff [simp]: "a \<in> set (positives c) \<longleftrightarrow> Pos a \<in> set c"
  unfolding positives_def by (force simp: List.map_filter_def split: signed_atom.splits)

lemma negatives_iff [simp]: "a \<in> set (negatives c) \<longleftrightarrow> Neg a \<in> set c"
  unfolding negatives_def by (force simp: List.map_filter_def split: signed_atom.splits)

section \<open>Inclusion from emptiness\<close>

text \<open>An atom check whose positive answers are inclusions.\<close>

definition sound_check :: "atom_check \<Rightarrow> bool" where
  "sound_check atom \<longleftrightarrow> (\<forall>a b sigma v. fo_atom a \<and> fo_atom b \<and> fst (atom a b sigma) \<and> inhabits v a \<longrightarrow> inhabits v b)"

lemma conjunction_sound:
  assumes "sound_check atom" "\<forall>a \<in> set c. fo_atom (content a)" "is_conjunction_empty atom c sigma"
  shows "\<not> conj_sat (inhabits v) c"
proof
  assume "conj_sat (inhabits v) c"
  then have pos: "inhabits v a" if "Pos a \<in> set c" for a
    using that by (auto simp: conj_sat_def list_all_iff)
  have neg: "\<not> inhabits v a" if "Neg a \<in> set c" for a
    using that \<open>conj_sat (inhabits v) c\<close> by (auto simp: conj_sat_def list_all_iff)
  have fo: "fo_atom a" if "Pos a \<in> set c \<or> Neg a \<in> set c" for a
    using that assms(2) by force
  from assms(3) consider (disjoint) "some_pair atoms_are_disjoint (positives c)"
    | (subsumed) "fst (any_check (\<lambda>(p, n). atom p n) (List.product (positives c) (negatives c)) sigma)"
    unfolding is_conjunction_empty_def by blast
  then show False
  proof cases
    case disjoint
    then obtain a b where "Pos a \<in> set c" "Pos b \<in> set c" "atoms_are_disjoint a b"
      using some_pair_true by fastforce
    then show ?thesis using disjoint_sound fo pos by blast
  next
    case subsumed
    then obtain a b sigma' where "Pos a \<in> set c" "Neg b \<in> set c" "fst (atom a b sigma')"
      using any_check_true by fastforce
    then show ?thesis using assms(1) fo pos neg unfolding sound_check_def by blast
  qed
qed

lemma negation_simps [simp]:
  "typevalue_ctor_index (negation u) = Some TV_NEG" "negated_of (negation u) = Some u"
  by (simp_all add: negation_def make_payload_typevalue_def make_payload_def
      typevalue_ctor_index_def negated_of_def typevalue_payload_def payload_typevalue_field_def
      payload_field_def dict_get_def)

lemma difference_simps [simp]:
  "typevalue_ctor_index (difference t u) = Some TV_INTER"
  "members_of (difference t u) = Some [t, negation u]"
  unfolding difference_def members_of_def by (rule built_members)+

lemma inhabits_difference: "inhabits v (difference t u) \<longleftrightarrow> inhabits v t \<and> \<not> inhabits v u"
  by (simp add: inhabits.simps [of v "difference t u"] inhabits.simps [of v "negation u"])

lemma first_order_difference: "first_order (difference t u) \<longleftrightarrow> first_order t \<and> first_order u"
  by (simp add: first_order.simps [of "difference t u"] first_order.simps [of "negation u"])

lemma limit_difference: "limit_under_neg (difference t u) \<longleftrightarrow> limit_under_neg t \<or> meets_limit u"
  by (simp add: limit_under_neg.simps [of "difference t u"] limit_under_neg.simps [of "negation u"])

lemma bas_sound:
  assumes "sound_check atom" "first_order t" "first_order u" "\<not> limit_under_neg t" "\<not> meets_limit u"
    and "is_subtype_bas_with_sigma atom t u sigma" "inhabits v t"
  shows "inhabits v u"
proof (rule ccontr)
  assume "\<not> inhabits v u"
  then have "den (inhabits v) (difference t u)"
    using assms(7) by (simp add: inhabits_den inhabits_difference)
  then have "rdnf_sat (inhabits v) (to_rdnf (difference t u))"
    using rdnf_above assms(4,5) by (simp add: limit_difference)
  then obtain c where c: "c \<in> set (to_rdnf (difference t u))" "conj_sat (inhabits v) c"
    by (auto simp: rdnf_sat_def list_ex_iff)
  have "\<forall>a \<in> set c. fo_atom (content a)"
    using fo_atoms_to_rdnf [of "difference t u"] assms(2,3) c(1)
    by (auto simp: first_order_difference atoms_in_def)
  then have "\<not> is_conjunction_empty atom c sigma" using conjunction_sound assms(1) c(2) by blast
  then have "\<not> is_rdnf_empty atom (to_rdnf (difference t u)) sigma"
    using c(1) by (auto simp: is_rdnf_empty_def list_all_iff)
  then show False
    using assms(2,3,6,7) \<open>\<not> inhabits v u\<close> unfolding is_subtype_bas_with_sigma_def
    by (auto simp: Let_def inhabits.simps [of v t] inhabits.simps [of v u] first_order.simps [of t]
        first_order.simps [of u] split: if_splits)
qed

section \<open>The atom check\<close>

lemma not_meets_limit: "\<not> meets_limit tv \<Longrightarrow> \<not> limit_under_neg tv"
proof (induction tv rule: measure_induct_rule [of size])
  case (less tv)
  then show ?case
    using size_members_of [of tv]
    by (cases rule: type_shape [of tv])
      (auto simp: meets_limit.simps [of tv] limit_under_neg.simps [of tv] split: option.splits)
qed

lemma record_fields:
  assumes "fo_atom a" "typevalue_ctor_index a = Some TV_RECORD"
  shows "inhabits v a \<longleftrightarrow> (\<exists>fs. v = GRec fs \<and> (\<forall>fv es. field_of a (us ''fields'') = Some fv \<longrightarrow>
      fv = TDict es \<longrightarrow> (\<forall>(k, t) \<in> set es. \<exists>x. dict_get fs k = Some x \<and> inhabits x t)))"
  unfolding inhabits.simps [of v a] assms(2)
  by (fastforce simp: entries_of_def split: gval.splits option.splits tyval.splits)

lemma record_field_types:
  assumes "fo_atom a" "typevalue_ctor_index a = Some TV_RECORD" "field_of a (us ''fields'') = Some fv"
  obtains es where "fv = TDict es"
    "\<And>k t. (k, t) \<in> set es \<Longrightarrow> plain_key k \<and> first_order t \<and> \<not> meets_limit t"
  using assms unfolding fo_atom_def
  by (cases fv) (fastforce simp: first_order.simps [of a] entries_of_def)+

lemma record_sound:
  assumes "sound_check atom" "fo_atom a" "fo_atom b"
    and rec_ctor: "typevalue_ctor_index a = Some TV_RECORD" "typevalue_ctor_index b = Some TV_RECORD"
    and check: "is_record_subtype (\<lambda>t u. is_subtype_bas_with_sigma atom t u sigma) a b"
    and v: "inhabits v a"
  shows "inhabits v b"
proof -
  obtain fs where fs: "v = GRec fs" using v record_fields [OF assms(2) rec_ctor(1)] by blast
  show ?thesis
  proof (cases "field_of b (us ''fields'')")
    case None
    then show ?thesis using record_fields [OF assms(3) rec_ctor(2)] fs by simp
  next
    case (Some fv)
    then obtain es where es: "fv = TDict es"
      and sup_fo: "\<And>k t. (k, t) \<in> set es \<Longrightarrow> plain_key k \<and> first_order t \<and> \<not> meets_limit t"
      using record_field_types [OF assms(3) rec_ctor(2)] by blast
    have "\<exists>x. dict_get fs k = Some x \<and> inhabits x t" if e: "(k, t) \<in> set es" for k t
    proof -
      have "record_fields_check (\<lambda>t u. is_subtype_bas_with_sigma atom t u sigma)
          (field_of a (us ''fields'')) (Some (TDict es)) \<noteq> Some False"
        using check Some es unfolding is_record_subtype_def field_of_def
        by (auto simp: Let_def split: option.splits)
      then obtain des t' where des: "field_of a (us ''fields'') = Some (TDict des)"
        and t': "dict_get des k = Some t'" "is_subtype_bas_with_sigma atom t' t sigma"
        using e unfolding record_fields_check_def
        by (fastforce simp: list_all_iff split: option.splits tyval.splits if_splits)
      have "(k, t') \<in> set des"
        using dict_get_plain [OF _ t'(1)] sup_fo [OF e] by simp
      moreover from this have "first_order t'" "\<not> meets_limit t'"
        using record_field_types [OF assms(2) rec_ctor(1) des] by blast+
      moreover from calculation obtain x where "dict_get fs k = Some x" "inhabits x t'"
        using v fs des record_fields [OF assms(2) rec_ctor(1)] by fastforce
      ultimately show ?thesis
        using bas_sound [OF assms(1)] sup_fo [OF e] not_meets_limit t'(2) by blast
    qed
    then show ?thesis using record_fields [OF assms(3) rec_ctor(2)] fs Some es by auto
  qed
qed

lemma payload_of_reads:
  "typevalue_nominal_id a = Some i \<Longrightarrow> \<exists>p. typevalue_payload a = Some p"
  "literal_value r a = Some x \<Longrightarrow> \<exists>p. typevalue_payload a = Some p \<and> r p (us ''value'') = Some x"
  unfolding typevalue_nominal_id_def literal_value_def
  by (auto split: if_splits option.splits simp: bind_eq_Some_conv)

lemma equal_atoms:
  "typevalue_ctor_index a = Some TV_NOMINAL \<Longrightarrow> typevalue_nominal_id a = Some i \<Longrightarrow> typevalue_nominal_id b = Some j
    \<Longrightarrow> fst (typevalue_structurally_equal atom a b sigma) \<longleftrightarrow> i = j"
  "typevalue_ctor_index a = Some TV_INT_LIT \<Longrightarrow> literal_value payload_int_field a = Some n
    \<Longrightarrow> literal_value payload_int_field b = Some m \<Longrightarrow> fst (typevalue_structurally_equal atom a b sigma) \<longleftrightarrow> n = m"
  "typevalue_ctor_index a = Some TV_FLOAT_LIT \<Longrightarrow> literal_value payload_float_field_bits a = Some x
    \<Longrightarrow> literal_value payload_float_field_bits b = Some y
    \<Longrightarrow> fst (typevalue_structurally_equal atom a b sigma) \<longleftrightarrow> x = y"
  "typevalue_ctor_index a = Some TV_STR_LIT \<Longrightarrow> literal_value payload_string_field a = Some s
    \<Longrightarrow> literal_value payload_string_field b = Some t
    \<Longrightarrow> fst (typevalue_structurally_equal atom a b sigma) \<longleftrightarrow> s = t"
  using payload_of_reads(1) [of a] payload_of_reads(1) [of b] payload_of_reads(2) [where a = a]
    payload_of_reads(2) [where a = b]
  by (fastforce simp: typevalue_structurally_equal_def)+

lemma atom_body_sound:
  assumes "sound_check atom"
  shows "sound_check (atom_body env atom)"
  unfolding sound_check_def
proof (intro allI impI, elim conjE)
  fix a b sigma v
  assume fo: "fo_atom a" "fo_atom b" and check: "fst (atom_body env atom a b sigma)" and v: "inhabits v a"
  show "inhabits v b"
  proof (cases "typevalue_ctor_index a = Some TV_RECORD \<and> typevalue_ctor_index b = Some TV_RECORD")
    case True
    then show ?thesis using record_sound [OF assms fo] check v by (simp add: atom_body_def)
  next
    case False
    then show ?thesis using check v
      by (cases rule: fo_atom_shape [OF fo(1)]; cases rule: fo_atom_shape [OF fo(2)])
        (simp_all add: atom_body_def Let_def equal_atoms)
  qed
qed

lemma atom_check_sound: "sound_check (is_atom_subtype n env)"
  by (induction n) (auto simp: atom_body_sound, simp add: sound_check_def)

section \<open>Soundness\<close>

definition int_lit :: "int \<Rightarrow> tyval" where
  "int_lit n = TVariant TYPE_ID_TYPE_VALUE TV_INT_LIT (Some (TDict [(HStr (us ''value''), TInt n)]))"

definition record_type :: "(str \<times> tyval) list \<Rightarrow> tyval" where
  "record_type fs = TVariant TYPE_ID_TYPE_VALUE TV_RECORD (Some (TDict
     [(HStr (us ''fields''), TDict (map (\<lambda>(k, t). (HStr k, t)) fs))]))"

definition union_of :: "tyval list \<Rightarrow> tyval" where
  "union_of ms = build_members_typevalue TYPE_ID_TYPE_VALUE TV_UNION ms"

lemma subtype_inclusion:
  "is_subtype_bas False t u env \<Longrightarrow> first_order t \<Longrightarrow> first_order u \<Longrightarrow> \<not> limit_under_neg t \<Longrightarrow> \<not> meets_limit u
     \<Longrightarrow> inhabits v t \<Longrightarrow> inhabits v u"
  using bas_sound [OF atom_check_sound] unfolding is_subtype_bas_def by auto



end
