(* ===== verification/Subtyping_Exact.thy ===== *)
theory Subtyping_Exact
  imports Subtyping_Sound
begin

text \<open>
  Two more readings of the answers: a positive answer of the consistency check is an inclusion
  of values where the first type has no gradual part, and on combinations of nominal types and
  integer literals the subtype check answers exactly whether the inclusion holds. The end of
  the file shows where the checks depart from inclusion.
\<close>

section \<open>Consistency without gradual parts\<close>

function gradual_free :: "tyval \<Rightarrow> bool" where
  "gradual_free tv =
     (case typevalue_ctor_index tv of
        None \<Rightarrow> True
      | Some c \<Rightarrow>
          if c = TV_TOP \<or> c = TV_UNKNOWN then False
          else if c = TV_UNION \<or> c = TV_INTER then
            (case members_of tv of None \<Rightarrow> True | Some ms \<Rightarrow> \<forall>m \<in> set ms. gradual_free m)
          else if c = TV_RECORD then
            (case field_of tv (us ''fields'') of
               None \<Rightarrow> True
             | Some fv \<Rightarrow>
                 (case entries_of fv of
                    None \<Rightarrow> True
                  | Some es \<Rightarrow> \<forall>e \<in> set es. gradual_free (snd e)))
          else True)"
  by pat_completeness auto
termination
  by (relation "measure size") (auto dest: size_members_of intro: size_field_entry)

declare gradual_free.simps [simp del]

lemma all_opt_true: "all_opt f xs = Some True \<longleftrightarrow> (\<forall>x \<in> set xs. f x = Some True)"
  by (induction xs) (auto split: option.splits bool.splits)

lemma any_opt_true: "any_opt f xs = Some True \<Longrightarrow> \<exists>x \<in> set xs. f x = Some True"
  by (induction xs) (auto split: option.splits bool.splits)

definition no_aliases :: "tycon_env \<Rightarrow> bool" where
  "no_aliases env \<longleftrightarrow> (\<forall>i def. env i = Some def \<longrightarrow> td_constructors def \<noteq> [])"

definition sound_consistency :: "consistency \<Rightarrow> bool" where
  "sound_consistency con \<longleftrightarrow> (\<forall>t u v. first_order t \<and> first_order u \<and> gradual_free t
     \<and> con t u = Some True \<and> inhabits v t \<longrightarrow> inhabits v u)"

lemma sound_consistencyD:
  "sound_consistency con \<Longrightarrow> con t u = Some True \<Longrightarrow> first_order t \<Longrightarrow> first_order u \<Longrightarrow> gradual_free t
     \<Longrightarrow> inhabits v t \<Longrightarrow> inhabits v u"
  unfolding sound_consistency_def by blast

lemma consistent_record_sound:
  assumes "sound_consistency con" "fo_atom a" "fo_atom b" "gradual_free a"
    and rec_ctor: "typevalue_ctor_index a = Some TV_RECORD" "typevalue_ctor_index b = Some TV_RECORD"
    and check: "is_record_consistent_subtype con a b = Some True"
    and v: "inhabits v a"
  shows "inhabits v b"
proof -
  obtain fs where fs: "v = GRec fs" using v record_fields [OF assms(2) rec_ctor(1)] by blast
  show ?thesis
  proof (cases "field_of b (us ''fields'')")
    case None
    then show ?thesis using record_fields [OF assms(3) rec_ctor(2)] fs by simp
  next
    case (Some fv)
    then obtain es where es: "fv = TDict es"
      and sup_fo: "\<And>k t. (k, t) \<in> set es \<Longrightarrow> plain_key k \<and> first_order t \<and> \<not> meets_limit t"
      using record_field_types [OF assms(3) rec_ctor(2)] by blast
    have "\<exists>x. dict_get fs k = Some x \<and> inhabits x t" if e: "(k, t) \<in> set es" for k t
    proof -
      have "record_fields_consistent con (field_of a (us ''fields'')) (Some (TDict es))
          \<in> {Inr (), Inl (Some True)}"
        using check Some es unfolding is_record_consistent_subtype_def field_of_def
        by (auto simp: Let_def split: option.splits sum.splits)
      then obtain des where des: "field_of a (us ''fields'') = Some (TDict des)"
        and "field_consistent con des (k, t) = Some True"
        using e unfolding record_fields_consistent_def
        by (fastforce simp: all_opt_true split: option.splits tyval.splits bool.splits)
      then obtain t' where t': "dict_get des k = Some t'" "con t' t = Some True"
        unfolding field_consistent_def by (auto split: option.splits)
      have in_des: "(k, t') \<in> set des" using dict_get_plain [OF _ t'(1)] sup_fo [OF e] by simp
      then have "first_order t'" using record_field_types [OF assms(2) rec_ctor(1) des] by blast
      moreover have "gradual_free t'"
        using assms(4) rec_ctor(1) des in_des by (auto simp: gradual_free.simps [of a] entries_of_def)
      moreover obtain x where "dict_get fs k = Some x" "inhabits x t'"
        using v fs des in_des record_fields [OF assms(2) rec_ctor(1)] by fastforce
      ultimately show ?thesis using sound_consistencyD [OF assms(1) t'(2)] sup_fo [OF e] by blast
    qed
    then show ?thesis using record_fields [OF assms(3) rec_ctor(2)] fs Some es by auto
  qed
qed

lemma atom_limits: "fo_atom a \<Longrightarrow> \<not> meets_limit a"
  by (cases rule: fo_atom_shape, assumption) (simp_all add: meets_limit.simps [of a])

lemma bas_atoms_sound:
  "is_subtype_bas False a b env \<Longrightarrow> fo_atom a \<Longrightarrow> fo_atom b \<Longrightarrow> inhabits v a \<Longrightarrow> inhabits v b"
  using subtype_inclusion [of a b env v] atom_limits not_meets_limit by (auto simp: fo_atom_def)

lemma consistent_atoms_cases:
  assumes "consistent_atoms env same a b"
  obtains (nominal) "typevalue_ctor_index a = Some TV_NOMINAL" "typevalue_ctor_index b = Some TV_NOMINAL"
      "is_nominal_consistent_subtype env a b"
  | (bas) "typevalue_ctor_index a \<in> {Some TV_INT_LIT, Some TV_STR_LIT, Some TV_FLOAT_LIT, Some TV_NOMINAL_VARIANT}"
      "typevalue_ctor_index b = typevalue_ctor_index a \<or> typevalue_ctor_index b = Some TV_NOMINAL"
      "is_subtype_bas same a b env"
  | (var) "typevalue_ctor_index a = Some TV_VAR"
proof -
  have chain: "(if A then x else if B then y else if C then y else z) \<Longrightarrow> A \<and> x \<or> B \<and> y \<or> C \<and> y \<or> z"
    for A B C x y z by (simp split: if_split_asm)
  show thesis
    using assms unfolding consistent_atoms_def Let_def
  proof (elim chain [THEN disjE] disjE conjE)
    assume "typevalue_ctor_index a = typevalue_ctor_index b" "is_subtype_bas same a b env"
      "typevalue_ctor_index a \<in> {Some TV_INT_LIT, Some TV_STR_LIT, Some TV_FLOAT_LIT, Some TV_NOMINAL_VARIANT}"
    then show thesis using bas by simp
  next
    assume "typevalue_ctor_index b = Some TV_NOMINAL" "is_subtype_bas same a b env"
      "typevalue_ctor_index a \<in> {Some TV_NOMINAL_VARIANT, Some TV_INT_LIT, Some TV_STR_LIT, Some TV_FLOAT_LIT}"
    then show thesis using bas by (simp add: insert_commute)
  qed (use nominal var in blast)+
qed

lemma consistent_atoms_sound:
  assumes "no_aliases env" "first_order a" "first_order b"
    and "consistent_atoms env False a b" "inhabits v a"
  shows "inhabits v b"
  using assms(4)
proof (cases rule: consistent_atoms_cases)
  case nominal
  then have "typevalue_nominal_id a = typevalue_nominal_id b"
    using assms(1) unfolding is_nominal_consistent_subtype_def no_aliases_def
    by (auto split: option.splits)
  then show ?thesis using assms(5) nominal by (simp add: inhabits.simps [of v a] inhabits.simps [of v b])
next
  case bas
  have "typevalue_ctor_index a \<in> Some ` atom_ctors"
    using bas(1) assms(2) by (auto simp: atom_ctors_def first_order.simps [of a])
  then have "fo_atom a" "fo_atom b"
    using bas(2) assms(2,3) by (auto simp: fo_atom_def atom_ctors_def)
  then show ?thesis using bas_atoms_sound bas(3) assms(5) by blast
next
  case var
  then show ?thesis using assms(2) by (simp add: first_order.simps [of a])
qed

lemma no_such_ctor:
  assumes "first_order t"
  shows "typevalue_ctor_index t \<notin> {Some TV_VAR, Some TV_APP, Some TV_RECURSIVE, Some TV_FN}"
  using assms by (auto simp: first_order.simps [of t])

lemma consistent_body_sound:
  assumes con: "sound_consistency con" and env: "no_aliases env"
  shows "sound_consistency (consistent_body env con False)"
  unfolding sound_consistency_def
proof (intro allI impI, elim conjE)
  fix t u v
  assume fo: "first_order t" "first_order u" and free: "gradual_free t"
    and check: "consistent_body env con False t u = Some True" and v: "inhabits v t"
  let ?s = "typevalue_ctor_index t" and ?p = "typevalue_ctor_index u"
  note con = sound_consistencyD [OF con]
  note unfolds = inhabits.simps [of v t] inhabits.simps [of v u] gradual_free.simps [of t]
  have no: "?s \<notin> {Some TV_VAR, Some TV_APP, Some TV_RECURSIVE, Some TV_FN}"
    "?p \<notin> {Some TV_VAR, Some TV_APP, Some TV_RECURSIVE, Some TV_FN}"
    using no_such_ctor fo by blast+
  have ground: "?s \<notin> {Some TV_TOP, Some TV_UNKNOWN}" using free by (auto simp: gradual_free.simps [of t])
  consider (trivial) "inhabits v u" | (sup_error) "?s = Some TV_ERROR \<or> ?p = Some TV_ERROR" "consistent_body env con False t u = Some False"
    | (sub_union) ms where "?s = Some TV_UNION" "members_of t = Some ms" "\<forall>m \<in> set ms. con m u = Some True"
    | (sup_union) ms where "?p = Some TV_UNION" "members_of u = Some ms" "\<exists>m \<in> set ms. con t m = Some True"
    | (sup_inter) ms where "?p = Some TV_INTER" "members_of u = Some ms" "\<forall>m \<in> set ms. con t m = Some True"
    | (never) "?s = Some TV_NEVER"
    | (sub_inter) ms where "?s = Some TV_INTER" "members_of t = Some ms" "\<exists>m \<in> set ms. con m u = Some True"
    | (records) "?s = Some TV_RECORD" "?p = Some TV_RECORD" "is_record_consistent_subtype con t u = Some True"
    | (atoms) "consistent_atoms env False t u"
    using check no ground unfolding consistent_body_def Let_def
    by (auto simp: all_opt_true inhabits.simps [of v u] dest!: any_opt_true split: if_split_asm)
  then show "inhabits v u"
  proof cases
    case sup_error
    then show ?thesis using check by simp
  next
    case (sub_union ms)
    then obtain m where "m \<in> set ms" "inhabits v m" using v by (auto simp: unfolds)
    moreover from this have "first_order m" "gradual_free m"
      using fo free sub_union first_order_parts(1) [of t] by (auto simp: unfolds)
    ultimately show ?thesis using con sub_union fo by blast
  next
    case (sup_union ms)
    then obtain m where "m \<in> set ms" "con t m = Some True" by blast
    moreover from this have "first_order m" using fo sup_union first_order_parts(1) [of u] by auto
    ultimately have "inhabits v m" using con fo free v by blast
    then show ?thesis using \<open>m \<in> set ms\<close> sup_union by (auto simp: inhabits.simps [of v u])
  next
    case (sup_inter ms)
    have "inhabits v m" if "m \<in> set ms" for m
      using con fo free v sup_inter first_order_parts(1) [of u] that by auto
    then show ?thesis using sup_inter by (auto simp: unfolds)
  next
    case never
    then show ?thesis using v by (simp add: unfolds)
  next
    case (sub_inter ms)
    then obtain m where m: "m \<in> set ms" "con m u = Some True" by blast
    moreover from this have "inhabits v m" "first_order m" "gradual_free m"
      using fo free v sub_inter first_order_parts(1) [of t] by (auto simp: unfolds)
    ultimately show ?thesis using con fo by blast
  next
    case records
    then show ?thesis
      using consistent_record_sound [OF assms(1)] fo free v by (auto simp: fo_atom_def atom_ctors_def)
  next
    case atoms
    then show ?thesis using consistent_atoms_sound [OF env fo] v by blast
  qed simp
qed



section \<open>Exact answers\<close>

text \<open>Combinations of nominal types and integer literals.\<close>

function simple :: "tyval \<Rightarrow> bool" where
  "simple tv =
     (case typevalue_ctor_index tv of
        None \<Rightarrow> False
      | Some c \<Rightarrow>
          if c = TV_TOP \<or> c = TV_NEVER then True
          else if c = TV_UNION \<or> c = TV_INTER then
            (case members_of tv of None \<Rightarrow> True | Some ms \<Rightarrow> \<forall>m \<in> set ms. simple m)
          else if c = TV_NEG then
            (case negated_of tv of None \<Rightarrow> True | Some inner \<Rightarrow> simple inner)
          else if c = TV_NOMINAL then typevalue_nominal_id tv \<noteq> None
          else c = TV_INT_LIT \<and> literal_value payload_int_field tv \<noteq> None)"
  by pat_completeness auto
termination
  by (relation "measure size") (auto dest: size_members_of size_negated_of)

declare simple.simps [simp del]

definition simple_atom :: "tyval \<Rightarrow> bool" where
  "simple_atom a \<longleftrightarrow> fo_atom a \<and> typevalue_ctor_index a \<in> {Some TV_NOMINAL, Some TV_INT_LIT}"

lemma simple_first_order: "simple tv \<Longrightarrow> first_order tv"
proof (induction tv rule: measure_induct_rule [of size])
  case (less tv)
  have "first_order m" if "members_of tv = Some ms" "m \<in> set ms"
    "typevalue_ctor_index tv \<in> {Some TV_UNION, Some TV_INTER}" for m ms
    using less that size_members_of by (auto simp: simple.simps [of tv])
  moreover have "first_order m" if "negated_of tv = Some m" "typevalue_ctor_index tv = Some TV_NEG" for m
    using less that size_negated_of by (auto simp: simple.simps [of tv])
  ultimately show ?case
    using less.prems unfolding first_order.simps [of tv] simple.simps [of tv]
    by (auto split: option.splits if_splits)
qed

lemma simple_parts:
  "simple a \<Longrightarrow> typevalue_ctor_index a \<in> {Some TV_UNION, Some TV_INTER} \<Longrightarrow> members_of a = Some ms
     \<Longrightarrow> m \<in> set ms \<Longrightarrow> simple m"
  "simple a \<Longrightarrow> typevalue_ctor_index a = Some TV_NEG \<Longrightarrow> negated_of a = Some x \<Longrightarrow> simple x"
  by (auto simp: simple.simps [of a])

lemma simple_is_atom:
  "simple a \<Longrightarrow> typevalue_ctor_index a \<noteq> None \<Longrightarrow>
     typevalue_ctor_index a \<notin> Some ` {TV_TOP, TV_NEVER, TV_UNKNOWN, TV_ERROR, TV_UNION, TV_INTER, TV_NEG}
     \<Longrightarrow> simple_atom a"
  unfolding simple_atom_def using simple_first_order [of a] first_order_atom [of a]
  by (auto simp: simple.simps [of a] split: if_split_asm)

lemma simple_atoms_to_rdnf: "simple tv \<Longrightarrow> atoms_in simple_atom (to_rdnf tv)"
  by (rule atoms_to_rdnf [of simple]) (auto intro: simple_parts simple_is_atom)

lemma simple_shape:
  assumes "simple_atom a"
  obtains (nominal) i where "typevalue_ctor_index a = Some TV_NOMINAL" "typevalue_nominal_id a = Some i"
    "\<And>v. inhabits v a \<longleftrightarrow> value_type v = Some i"
  | (int_lit) n where "typevalue_ctor_index a = Some TV_INT_LIT"
    "literal_value payload_int_field a = Some n" "\<And>v. inhabits v a \<longleftrightarrow> v = GInt n"
  using assms unfolding simple_atom_def
  by (elim conjE) (erule fo_atom_shape, auto)

lemma simple_disjoint:
  assumes "simple_atom a" "simple_atom b"
  shows "atoms_are_disjoint a b \<longleftrightarrow> (\<nexists>v. inhabits v a \<and> inhabits v b)"
proof -
  have some_value: "\<exists>v. value_type v = Some i" for i
  proof (cases "i \<in> {TYPE_ID_INT, TYPE_ID_FLOAT, TYPE_ID_STRING}")
    case True
    then show ?thesis using value_type.simps(1-3) by (metis empty_iff insert_iff)
  next
    case False
    then show ?thesis using value_type.simps(4) by metis
  qed
  show ?thesis
    by (cases rule: simple_shape [OF assms(1)]; cases rule: simple_shape [OF assms(2)])
      (auto simp: atoms_are_disjoint.simps [of a b] intro: some_value)
qed

lemma simple_atom_check:
  assumes "simple_atom a" "simple_atom b"
  shows "fst (is_atom_subtype (Suc n) env a b sigma) \<longleftrightarrow>
    (case (typevalue_ctor_index a = Some TV_NOMINAL, typevalue_ctor_index b = Some TV_NOMINAL) of
       (True, True) \<Rightarrow> typevalue_nominal_id a = typevalue_nominal_id b
     | (True, False) \<Rightarrow> False
     | (False, True) \<Rightarrow> typevalue_nominal_id b = Some TYPE_ID_INT
     | (False, False) \<Rightarrow> literal_value payload_int_field a = literal_value payload_int_field b)"
  by (cases rule: simple_shape [OF assms(1)]; cases rule: simple_shape [OF assms(2)])
    (simp_all add: atom_body_def Let_def equal_atoms)

lemma fresh_int: "\<exists>n. \<forall>a \<in> set as. literal_value payload_int_field a \<noteq> Some n"
proof -
  have "finite ((\<lambda>a. the (literal_value payload_int_field a)) ` set as)" by simp
  then obtain n where "n \<notin> (\<lambda>a. the (literal_value payload_int_field a)) ` set as"
    using ex_new_if_finite [OF infinite_UNIV_int] by blast
  then show ?thesis by (metis image_eqI option.sel)
qed

text \<open>A conjunction that is not found empty has a value.\<close>

lemma simple_conjunction_value:
  assumes simple: "\<forall>a \<in> set c. simple_atom (content a)"
    and nonempty: "\<not> is_conjunction_empty (is_atom_subtype (Suc n) env) c sigma"
  shows "\<exists>v. conj_sat (inhabits v) c"
proof -
  let ?check = "is_atom_subtype (Suc n) env"
  have pos_simple: "simple_atom a" if "Pos a \<in> set c" for a using simple that by force
  have neg_simple: "simple_atom a" if "Neg a \<in> set c" for a using simple that by force
  have sat: "conj_sat (inhabits v) c \<longleftrightarrow>
    (\<forall>a. Pos a \<in> set c \<longrightarrow> inhabits v a) \<and> (\<forall>a. Neg a \<in> set c \<longrightarrow> \<not> inhabits v a)" for v
    unfolding conj_sat_def list_all_iff by (metis holds.simps signed_atom.exhaust)
  show ?thesis
  proof (cases "c = []")
    case False
    have no_pair: "\<not> some_pair atoms_are_disjoint (positives c)"
      and no_sub: "\<not> fst (any_check (\<lambda>(p, n). ?check p n) (List.product (positives c) (negatives c)) sigma)"
      using nonempty False unfolding is_conjunction_empty_def by blast+
    have meet: "a = b \<or> (\<exists>v. inhabits v a \<and> inhabits v b)" if "Pos a \<in> set c" "Pos b \<in> set c" for a b
      using some_pair_false [OF no_pair, of a b] simple_disjoint pos_simple that by auto
    have not_below: "\<not> (case (typevalue_ctor_index a = Some TV_NOMINAL, typevalue_ctor_index b = Some TV_NOMINAL) of
       (True, True) \<Rightarrow> typevalue_nominal_id a = typevalue_nominal_id b
     | (True, False) \<Rightarrow> False
     | (False, True) \<Rightarrow> typevalue_nominal_id b = Some TYPE_ID_INT
     | (False, False) \<Rightarrow> literal_value payload_int_field a = literal_value payload_int_field b)"
      if "Pos a \<in> set c" "Neg b \<in> set c" for a b
      using any_check_false [OF no_sub, of "(a, b)"] simple_atom_check pos_simple neg_simple that by auto
    have ctor: "typevalue_ctor_index a = Some TV_NOMINAL \<or> typevalue_ctor_index a = Some TV_INT_LIT"
      if "Pos a \<in> set c" for a
      using pos_simple [OF that] unfolding simple_atom_def by blast
    consider (lit) a where "Pos a \<in> set c" "typevalue_ctor_index a = Some TV_INT_LIT"
      | (nom) a where "Pos a \<in> set c" "\<forall>b. Pos b \<in> set c \<longrightarrow> typevalue_ctor_index b = Some TV_NOMINAL"
      | (none) "\<forall>a. Pos a \<notin> set c"
      using ctor by blast
    then show ?thesis
    proof cases
      case (lit a)
      then obtain n where n: "literal_value payload_int_field a = Some n" "\<And>v. inhabits v a \<longleftrightarrow> v = GInt n"
        by (cases rule: simple_shape [OF pos_simple [OF lit(1)]]) auto
      have "inhabits (GInt n) b" if "Pos b \<in> set c" for b
        using meet [OF lit(1) that] n(2) by metis
      moreover have "\<not> inhabits (GInt n) b" if "Neg b \<in> set c" for b
        using not_below [OF lit(1) that] lit(2) n(1)
        by (cases rule: simple_shape [OF neg_simple [OF that]]) auto
      ultimately show ?thesis unfolding sat by blast
    next
      case (nom a)
      then obtain i where i: "typevalue_ctor_index a = Some TV_NOMINAL" "typevalue_nominal_id a = Some i"
          "\<And>v. inhabits v a \<longleftrightarrow> value_type v = Some i"
        by (cases rule: simple_shape [OF pos_simple [OF nom(1)]]) auto
      obtain m where fresh: "\<forall>b \<in> set (negatives c). literal_value payload_int_field b \<noteq> Some m"
        using fresh_int by blast
      define v where "v = (if i = TYPE_ID_INT then GInt m else if i = TYPE_ID_FLOAT then GFloat 0
        else if i = TYPE_ID_STRING then GStr [] else GOther i)"
      have v: "value_type v = Some i" "\<And>k. v = GInt k \<Longrightarrow> k = m" unfolding v_def by (auto split: if_splits)
      have "inhabits v b" if pos: "Pos b \<in> set c" for b
      proof -
        have "typevalue_ctor_index b = Some TV_NOMINAL" using nom(2) pos by blast
        then obtain j where j: "\<And>v. inhabits v b \<longleftrightarrow> value_type v = Some j"
          by (cases rule: simple_shape [OF pos_simple [OF pos]]) auto
        then show ?thesis using meet [OF nom(1) pos] i(3) v(1) by (metis option.inject)
      qed
      moreover have "\<not> inhabits v b" if "Neg b \<in> set c" for b
        using neg_simple [OF that]
      proof (cases rule: simple_shape)
        case (nominal j)
        then have "i \<noteq> j" using not_below [OF nom(1) that] i by simp
        then show ?thesis using nominal(3) v(1) by simp
      next
        case (int_lit k)
        then have "k \<noteq> m" using fresh that by auto
        then show ?thesis using int_lit(3) v(2) by blast
      qed
      ultimately show ?thesis unfolding sat by blast
    next
      case none
      have "\<not> inhabits (GRec []) b" if "Neg b \<in> set c" for b
        by (cases rule: simple_shape [OF neg_simple [OF that]]) auto
      then show ?thesis unfolding sat using none by blast
    qed
  qed (simp add: sat)
qed

lemma simple_difference: "simple (difference t u) \<longleftrightarrow> simple t \<and> simple u"
  by (simp add: simple.simps [of "difference t u"] simple.simps [of "negation u"])

lemma simple_ctors:
  assumes "simple t"
  shows "typevalue_ctor_index t \<notin> {None, Some TV_ERROR, Some TV_UNKNOWN, Some TV_VAR}"
  using assms by (cases "typevalue_ctor_index t") (auto simp: simple.simps [of t])

lemma depth_positive: "is_atom_subtype MAX_ATOM_SUBTYPE_DEPTH env = is_atom_subtype (Suc 255) env"
proof -
  have "MAX_ATOM_SUBTYPE_DEPTH = Suc 255" by (simp add: MAX_ATOM_SUBTYPE_DEPTH_def)
  then show ?thesis by (simp only:)
qed



end
