(* ===== verification/Subtyping_Gaps.thy ===== *)
theory Subtyping_Gaps
  imports Subtyping_Exact
begin

text \<open>
  Inputs on which the subtype checks answer otherwise than their comments, or the inclusion of
  the types, say. Each lemma evaluates the definitions of the checks.
\<close>

definition str_lit :: "str \<Rightarrow> tyval" where
  "str_lit s = TVariant TYPE_ID_TYPE_VALUE TV_STR_LIT (Some (TDict [(HStr (us ''value''), TStr s)]))"

definition rec_of :: "tyval \<Rightarrow> tyval" where
  "rec_of body = TVariant TYPE_ID_TYPE_VALUE TV_RECURSIVE (Some (TDict [(HStr (us ''body''), body)]))"

definition variant_type :: "int \<Rightarrow> int \<Rightarrow> tyval" where
  "variant_type tycon ctor = TVariant TYPE_ID_TYPE_VALUE TV_NOMINAL_VARIANT (Some (TDict
     [(HStr (us ''tycon''), TInt tycon), (HStr (us ''ctor''), TInt ctor)]))"

definition closed_record :: "(str \<times> tyval) list \<Rightarrow> tyval" where
  "closed_record fs = TVariant TYPE_ID_TYPE_VALUE TV_RECORD (Some (TDict
     [(HStr (us ''fields''), TDict (map (\<lambda>(k, t). (HStr k, t)) fs)), (HStr (us ''tail''), TDict [])]))"

definition uniform_record :: "(str \<times> tyval) list \<Rightarrow> tyval \<Rightarrow> tyval" where
  "uniform_record fs t = TVariant TYPE_ID_TYPE_VALUE TV_RECORD (Some (TDict
     [(HStr (us ''fields''), TDict (map (\<lambda>(k, t). (HStr k, t)) fs)),
      (HStr (us ''tail''), TVariant 0 RT_UNIFORM (Some (TDict [(HStr (us ''value-type''), t)])))]))"

abbreviation "int_type \<equiv> make_typevalue_nominal TYPE_ID_INT"
abbreviation "string_type \<equiv> make_typevalue_nominal TYPE_ID_STRING"

text \<open>
  A hypothesis of a failed check stays in the set for the next negative atom of the same
  conjunction, so a recursive type is found to be a subtype of a union that has the same
  recursive type twice, though it is not a subtype of that type.
\<close>

lemma stale_hypothesis:
  "\<not> is_subtype_bas False (rec_of int_type) (rec_of string_type) Map.empty"
  "is_subtype_bas False (rec_of int_type) (union_of [rec_of string_type, rec_of string_type]) Map.empty"
  by code_simp+

text \<open>
  Two variant types: the comparison of equal constructors goes to the check of atoms, which
  comes back to it until the depth is spent, and answers no, for equal variants too.
\<close>

lemma both_checks_first: "fst (both_checks r f) \<Longrightarrow> fst r"
  unfolding both_checks_def by (cases r) (auto split: bool.splits)

lemma any_check_none: "(\<And>x sigma. x \<in> set xs \<Longrightarrow> \<not> fst (f x sigma)) \<Longrightarrow> \<not> fst (any_check f xs sigma)"
  using any_check_true by blast

lemma variant_shape:
  "typevalue_ctor_index (variant_type t c) = Some TV_NOMINAL_VARIANT"
  "\<exists>p. typevalue_payload (variant_type t c) = Some p"
  "to_rdnf (variant_type t c) = [[Pos (variant_type t c)]]"
  by (simp_all add: variant_type_def typevalue_ctor_index_def typevalue_payload_def to_rdnf.simps [of "TVariant _ _ _"])

lemma variant_check: "\<not> fst (is_atom_subtype n env (variant_type t c) (variant_type t' c') sigma)"
proof (induction n arbitrary: sigma)
  case (Suc n)
  then show ?case
    using variant_shape(2) [of t c] variant_shape(2) [of t' c']
    by (auto simp: atom_body_def Let_def typevalue_structurally_equal_def variant_shape(1) dest!: both_checks_first)
qed simp

lemma variant_not_subtype_of_union:
  assumes "ms \<noteq> []"
  shows "\<not> is_subtype_bas_with_sigma (is_atom_subtype n env) (variant_type t c)
     (union_of (map (\<lambda>(t', c'). variant_type t' c') ms)) sigma"
proof -
  let ?v = "variant_type t c" and ?u = "union_of (map (\<lambda>(t', c'). variant_type t' c') ms)"
  have u: "typevalue_ctor_index ?u = Some TV_UNION"
    "members_of ?u = Some (map (\<lambda>(t', c'). variant_type t' c') ms)"
    unfolding union_of_def members_of_def by (rule built_members)+
  have "concat (map to_rdnf (map (\<lambda>(t', c'). variant_type t' c') xs)) = map (\<lambda>(t', c'). [Pos (variant_type t' c')]) xs"
    for xs by (induction xs) (auto simp: variant_shape(3))
  then have "to_rdnf ?u = map (\<lambda>(t', c'). [Pos (variant_type t' c')]) ms"
    by (simp add: to_rdnf.simps [of ?u] u)
  moreover have "negate_loop [c] (map (\<lambda>(t', c'). [Pos (variant_type t' c')]) xs)
      = [c @ map (\<lambda>(t', c'). Neg (variant_type t' c')) xs]" for c xs
    by (induction xs arbitrary: c) (auto simp: distribute_def MAX_RDNF_CONJUNCTIONS_def)
  ultimately have neg: "negate_rdnf (to_rdnf ?u) = [map (\<lambda>(t', c'). Neg (variant_type t' c')) ms]"
    using assms by (simp add: negate_rdnf_def)
  let ?c = "Pos ?v # map (\<lambda>(t', c'). Neg (variant_type t' c')) ms"
  have "to_rdnf (difference ?v ?u) = [?c]"
    by (simp add: to_rdnf.simps [of "difference ?v ?u"] to_rdnf.simps [of "negation ?u"] neg variant_shape(3)
        distribute_def MAX_RDNF_CONJUNCTIONS_def)
  moreover have "\<not> is_conjunction_empty (is_atom_subtype n env) ?c sigma"
  proof -
    have pos: "positives ?c = [?v]"
      by (auto simp: positives_def List.map_filter_def filter_empty_conv)
    have "negatives ?c = map (\<lambda>(t', c'). variant_type t' c') ms"
      unfolding negatives_def by (induction ms) (auto simp: List.map_filter_def)
    moreover have "\<not> fst (any_check (\<lambda>(p, n'). is_atom_subtype n env p n')
        (List.product [?v] (map (\<lambda>(t', c'). variant_type t' c') ms)) sigma)"
    proof (rule any_check_none)
      fix x sigma' assume "x \<in> set (List.product [?v] (map (\<lambda>(t', c'). variant_type t' c') ms))"
      then obtain t' c' where "x = (?v, variant_type t' c')" by auto
      then show "\<not> fst ((\<lambda>(p, n'). is_atom_subtype n env p n') x sigma')"
        using variant_check by simp
    qed
    ultimately show ?thesis
      unfolding is_conjunction_empty_def pos by simp
  qed
  ultimately show ?thesis
    by (simp add: is_subtype_bas_with_sigma_def Let_def variant_shape(1) u(1) is_rdnf_empty_def)
qed

lemma variant_not_subtype_of_equal: "\<not> is_subtype_bas False (variant_type t c) (union_of [variant_type t c]) env"
  using variant_not_subtype_of_union [of "[(t, c)]"] by (simp add: is_subtype_bas_def)

text \<open>
  So a variant is not a subtype of its type when the environment holds the type's body, the
  union of its variants.
\<close>

lemma variant_not_in_its_type:
  assumes "env i = Some \<lparr>td_body = union_of (map (\<lambda>(t', c'). variant_type t' c') ms), td_variance = vs,
      td_constructors = cs\<rparr>" and "ms \<noteq> []"
  shows "\<not> fst (is_atom_subtype (Suc n) env (variant_type t c) (make_typevalue_nominal i) sigma)"
  using variant_not_subtype_of_union [OF assms(2)] assms(1)
  by (simp add: atom_body_def Let_def variant_shape(1) is_variant_subtype_def)

text \<open>A variant is a subtype of its type and disjoint from it.\<close>

lemma variant_disjoint_from_type:
  "is_subtype_bas False (variant_type 100 0) (make_typevalue_nominal 100) Map.empty"
  "atoms_are_disjoint (variant_type 100 0) (make_typevalue_nominal 100)"
  by code_simp+

text \<open>The arm for aliases of nominal types is behind the arm for equal constructors.\<close>

lemma alias_not_followed:
  "\<not> is_subtype_bas False int_type (make_typevalue_nominal 100)
     [100 \<mapsto> \<lparr>td_body = int_type, td_variance = [], td_constructors = []\<rparr>]"
  by code_simp

text \<open>Fingerprints are not injective: strings are written without escapes.\<close>

lemma fingerprint_collision:
  "typevalue_structural_fingerprint (union_of [str_lit (us ''a''), str_lit (us ''b'')]) Map.empty
   = typevalue_structural_fingerprint (union_of [str_lit (us ''a),StrLit(b'')]) Map.empty"
  by code_simp

text \<open>
  A closed record with more fields is a subtype of a closed record, and the fields of a record
  with a uniform tail are not compared with the uniform type of the super type.
\<close>

lemma closed_record_extra_field:
  "is_subtype_bas False (closed_record [(us ''x'', int_type), (us ''y'', int_type)])
     (closed_record [(us ''x'', int_type)]) Map.empty"
  by code_simp

lemma uniform_record_extra_field:
  "is_subtype_bas False (uniform_record [(us ''x'', string_type)] int_type) (uniform_record [] int_type) Map.empty"
  by code_simp

text \<open>Two literals of different kinds or strings are disjoint, which the check does not see.\<close>

lemma literals_not_disjoint:
  "\<not> atoms_are_disjoint (str_lit (us ''a'')) (str_lit (us ''b''))"
  "\<not> atoms_are_disjoint (int_lit 1) (str_lit (us ''b''))"
  by code_simp+

end
