(* ===== verification/Literate.thy ===== *)
theory Literate
  imports Lexer
begin

text \<open>
  Literate documents (\<^verbatim>\<open>src/literate.rs\<close>): the blocks of a markdown text, with the
  expected outputs they name and their byte offsets, and the maps between positions in a block
  and in the document. Positions inside a block are counted in characters: every slice of the
  code there begins and ends at a newline or next to the ASCII marker. Offsets into the
  document are bytes, as in the code; \<open>None\<close> is the panic of a slice that is not at a
  character. Line numbers are unbounded.
\<close>

section \<open>Fences\<close>

definition opens_block :: "str \<Rightarrow> bool" where
  "opens_block l = (str_trim l = us ''```tinct'' \<or> str_trim l = us ''```llt'')"

definition closes_block :: "str \<Rightarrow> bool" where
  "closes_block l = (str_trim l = us ''```'')"

fun code_blocks_loop :: "str option \<Rightarrow> str list \<Rightarrow> str list" where
  "code_blocks_loop current [] = []"
| "code_blocks_loop None (l # ls) =
     (if opens_block l then code_blocks_loop (Some []) ls else code_blocks_loop None ls)"
| "code_blocks_loop (Some buf) (l # ls) =
     (if closes_block l then buf # code_blocks_loop None ls
      else code_blocks_loop (Some (buf @ l @ [NL])) ls)"

definition extract_code_blocks :: "str \<Rightarrow> str list" where
  "extract_code_blocks markdown = code_blocks_loop None (str_lines markdown)"

definition tangle :: "str list \<Rightarrow> str" where
  "tangle blocks = join_str ([NL] @ us ''---'' @ [NL]) blocks"

section \<open>Expected outputs\<close>

record block_expectations =
  be_out :: "str option"
  be_warn :: "str option"
  be_error :: "str option"
  be_info :: "str option"

record block_with_expectations =
  bw_code :: str
  bw_expectations :: block_expectations

abbreviation no_expectations :: block_expectations where
  "no_expectations \<equiv> \<lparr>be_out = None, be_warn = None, be_error = None, be_info = None\<rparr>"

definition line_end :: "str \<Rightarrow> nat" where
  "line_end s = (case str_find [NL] s of None \<Rightarrow> length s | Some i \<Rightarrow> i)"

definition section_mark :: str where
  "section_mark = [NL] @ us ''===''"

function find_sections :: "str \<Rightarrow> nat \<Rightarrow> (nat \<times> str) list" where
  "find_sections block search_start =
     (case str_find section_mark (drop search_start block) of
        None \<Rightarrow> []
      | Some pos \<Rightarrow>
          let abs_pos = search_start + pos;
              after_delim = drop (abs_pos + 4) block;
              label_end = line_end after_delim
          in (abs_pos, str_trim (take label_end after_delim)) # find_sections block (abs_pos + 4 + label_end))"
  by pat_completeness auto
termination
proof (relation "measure (\<lambda>(block, search_start). length block - search_start)", simp, goal_cases)
  case (1 block search_start pos abs_pos after_delim label_end)
  then have "pos + 4 \<le> length (drop search_start block)"
    using str_find_bound [of section_mark "drop search_start block" pos] by (simp add: section_mark_def)
  then show ?case using 1 by auto
qed

declare find_sections.simps [simp del]

definition some_text :: "str \<Rightarrow> str option" where
  "some_text content = (if str_trim content = [] then None else Some (str_trim content))"

definition section_content :: "str \<Rightarrow> nat \<Rightarrow> nat option \<Rightarrow> str" where
  "section_content block pos next_pos =
     (let label_line_start = pos + 4;
          label_line_end = label_line_start + line_end (drop label_line_start block);
          content_start = (if label_line_end < length block then label_line_end + 1 else label_line_end);
          content_end = (case next_pos of None \<Rightarrow> length block | Some n \<Rightarrow> n + 1)
      in take (content_end - content_start) (drop content_start block))"

definition set_expectation :: "str \<Rightarrow> str \<Rightarrow> block_expectations \<Rightarrow> block_expectations" where
  "set_expectation label content ex =
     (if label = us ''out'' then ex\<lparr>be_out := some_text content\<rparr>
      else if label = us ''warn'' then ex\<lparr>be_warn := some_text content\<rparr>
      else if label = us ''error'' then ex\<lparr>be_error := some_text content\<rparr>
      else if label = us ''info'' then ex\<lparr>be_info := some_text content\<rparr>
      else ex)"

fun parse_sections :: "str \<Rightarrow> (nat \<times> str) list \<Rightarrow> block_expectations \<Rightarrow> block_expectations" where
  "parse_sections block [] ex = ex"
| "parse_sections block ((pos, label) # rest) ex =
     parse_sections block rest
       (set_expectation label (section_content block pos (map_option fst (nth_opt rest 0))) ex)"

definition split_block_sections :: "str \<Rightarrow> block_with_expectations" where
  "split_block_sections block =
     (case find_sections block 0 of
        [] \<Rightarrow> \<lparr>bw_code = block, bw_expectations = no_expectations\<rparr>
      | (pos, label) # rest \<Rightarrow>
          \<lparr>bw_code = take (pos + 1) block,
           bw_expectations = parse_sections block ((pos, label) # rest) no_expectations\<rparr>)"

section \<open>Blocks with offsets\<close>

record literate_block =
  lb_code :: str
  lb_expectations :: block_expectations
  lb_md_start :: nat
  lb_md_code_start :: nat
  lb_md_code_end :: nat

fun blocks_loop :: "(str \<times> nat \<times> nat) option \<Rightarrow> nat \<Rightarrow> str list \<Rightarrow> literate_block list" where
  "blocks_loop current byte_offset [] = []"
| "blocks_loop None byte_offset (l # ls) =
     blocks_loop (if opens_block l then Some ([], byte_offset, byte_offset + byte_length l + 1) else None)
       (byte_offset + byte_length l + 1) ls"
| "blocks_loop (Some (buf, fence_start, code_start)) byte_offset (l # ls) =
     (if closes_block l
      then (let parts = split_block_sections buf in
              \<lparr>lb_code = bw_code parts, lb_expectations = bw_expectations parts, lb_md_start = fence_start,
               lb_md_code_start = code_start, lb_md_code_end = byte_offset\<rparr>
              # blocks_loop None (byte_offset + byte_length l + 1) ls)
      else blocks_loop (Some (buf @ l @ [NL], fence_start, code_start)) (byte_offset + byte_length l + 1) ls)"

definition extract_blocks :: "str \<Rightarrow> literate_block list" where
  "extract_blocks markdown = blocks_loop None 0 (str_lines markdown)"

section \<open>Positions\<close>

fun md_offset_from :: "nat \<Rightarrow> literate_block list \<Rightarrow> nat \<Rightarrow> (nat \<times> nat) option" where
  "md_offset_from i [] md_offset = None"
| "md_offset_from i (b # bs) md_offset =
     (if md_offset \<ge> lb_md_code_start b \<and> md_offset < lb_md_code_end b
      then Some (i, md_offset - lb_md_code_start b)
      else md_offset_from (i + 1) bs md_offset)"

definition md_offset_to_block :: "literate_block list \<Rightarrow> nat \<Rightarrow> (nat \<times> nat) option" where
  "md_offset_to_block blocks md_offset = md_offset_from 0 blocks md_offset"

definition newlines :: "str \<Rightarrow> nat" where
  "newlines s = length (filter (\<lambda>c. c = NL) s)"

definition block_span_to_md :: "literate_block list \<Rightarrow> nat \<Rightarrow> span \<Rightarrow> str \<Rightarrow> span option" where
  "block_span_to_md blocks block_idx sp markdown =
     (case nth_opt blocks block_idx of
        None \<Rightarrow> Some sp
      | Some block \<Rightarrow>
          map_option (\<lambda>before.
            span_new (sp_start_line sp + newlines before) (sp_start_col sp)
              (sp_end_line sp + newlines before) (sp_end_col sp) (sp_file sp))
            (byte_prefix (lb_md_code_start block) markdown))"

end
