(* ===== verification/Literate_Properties.thy ===== *)
theory Literate_Properties
  imports Literate
begin

text \<open>
  The blocks of a literate document: they are the code blocks of the plain extraction, their
  byte offsets delimit them in a text with newline line ends, and the maps between positions
  respect lines. The last section shows what the offsets are with carriage returns.
\<close>

section \<open>Lines\<close>

definition unlines :: "str list \<Rightarrow> str" where
  "unlines ls = concat (map (\<lambda>l. l @ [NL]) ls)"

lemma unlines_simps [simp]: "unlines [] = []" "unlines (l # ls) = l @ NL # unlines ls"
  "unlines (ls @ ms) = unlines ls @ unlines ms"
  by (simp_all add: unlines_def)

definition ends_line :: "str \<Rightarrow> bool" where
  "ends_line s \<longleftrightarrow> s = [] \<or> last s = NL"

lemma ends_line_simps [simp]: "ends_line []" "ends_line (s @ [NL])" "ends_line (s @ t @ [NL])"
    "ends_line (r @ s @ t @ [NL])"
  by (auto simp: ends_line_def)

lemma ends_line_append: "ends_line s \<Longrightarrow> ends_line t \<Longrightarrow> ends_line (s @ t)"
  by (cases "t = []") (auto simp: ends_line_def)

lemma strip_cr_plain: "CR \<notin> set s \<Longrightarrow> strip_cr s = s"
  unfolding strip_cr_def by (metis last_in_set)

text \<open>Lines of a text that follows another one.\<close>

lemma lines_from_append:
  "lines_from cur (s @ [NL] @ t) = lines_from cur (s @ [NL]) @ lines_from [] t"
  by (induction s arbitrary: cur) auto

lemma str_lines_append:
  assumes "ends_line s"
  shows "str_lines (s @ t) = str_lines s @ str_lines t"
proof (cases "s = []")
  case False
  then obtain s' where "s = s' @ [NL]" using assms unfolding ends_line_def by (metis append_butlast_last_id)
  then show ?thesis using lines_from_append [of "[]" s' t] by (simp add: str_lines_def)
qed (simp add: str_lines_def)

lemma length_lines_from:
  "ends_line s \<Longrightarrow> length (lines_from cur s) = newlines s + (if s = [] \<and> cur \<noteq> [] then 1 else 0)"
proof (induction s arbitrary: cur)
  case (Cons c s)
  then have "ends_line s" by (auto simp: ends_line_def split: if_splits)
  then show ?case using Cons by (auto simp: newlines_def ends_line_def split: if_splits)
qed (simp add: newlines_def)

lemma length_str_lines: "ends_line s \<Longrightarrow> length (str_lines s) = newlines s"
  using length_lines_from [of s "[]"] by (simp add: str_lines_def)

lemma unlines_lines_from:
  "CR \<notin> set (cur @ s) \<Longrightarrow> \<exists>e. (e = [] \<or> e = [NL]) \<and> cur @ s @ e = unlines (lines_from cur s)"
proof (induction s arbitrary: cur)
  case (Cons c s)
  show ?case
  proof (cases "c = NL")
    case True
    then obtain e where "(e = [] \<or> e = [NL]) \<and> s @ e = unlines (lines_from [] s)"
      using Cons.IH [of "[]"] Cons.prems by auto
    then show ?thesis using True Cons.prems by (intro exI [of _ e]) (auto simp: strip_cr_plain)
  next
    case False
    then show ?thesis using Cons.IH [of "cur @ [c]"] Cons.prems by auto
  qed
qed auto

section \<open>The two extractions\<close>

text \<open>
  A block \<open>b\<close> with the text \<open>raw\<close> at its offsets in a document, after a line end and before
  a closing fence.
\<close>

definition parts_of :: "literate_block \<Rightarrow> str \<Rightarrow> str \<Rightarrow> bool" where
  "parts_of b p raw \<longleftrightarrow> ends_line p \<and> ends_line raw
     \<and> lb_md_code_start b = byte_length p \<and> lb_md_code_end b = byte_length (p @ raw)
     \<and> lb_code b = bw_code (split_block_sections raw)
     \<and> lb_expectations b = bw_expectations (split_block_sections raw)"

definition block_in :: "str \<Rightarrow> literate_block \<Rightarrow> str \<Rightarrow> bool" where
  "block_in doc b raw \<longleftrightarrow> (\<exists>p fence q. doc = p @ raw @ fence @ NL # q \<and> closes_block fence \<and> parts_of b p raw)"

definition block_at :: "str \<Rightarrow> literate_block \<Rightarrow> str \<Rightarrow> bool" where
  "block_at doc b raw \<longleftrightarrow> (\<exists>p fence q. doc = p @ raw @ fence @ q \<and> closes_block fence \<and> (q = [] \<or> hd q = NL)
     \<and> parts_of b p raw)"

lemma block_in_at:
  assumes "block_in (doc @ e) b raw" "e = [] \<or> e = [NL]"
  shows "block_at doc b raw"
proof -
  obtain p fence q where doc: "doc @ e = p @ raw @ fence @ NL # q" "closes_block fence" "parts_of b p raw"
    using assms(1) unfolding block_in_def by blast
  show ?thesis
  proof (cases "e = []")
    case True
    then show ?thesis unfolding block_at_def using doc by (intro exI [of _ p] exI [of _ fence] exI [of _ "NL # q"]) simp
  next
    case False
    then have e: "e = [NL]" using assms(2) by simp
    then have "doc = butlast (p @ raw @ fence @ NL # q)" using doc(1) by (metis butlast_snoc)
    then have "doc = p @ raw @ fence @ butlast (NL # q)" by (simp add: butlast_append)
    moreover have "butlast (NL # q) = [] \<or> hd (butlast (NL # q)) = NL" by simp
    ultimately show ?thesis unfolding block_at_def using doc by blast
  qed
qed

lemma byte_length_NL [simp]: "utf8_len NL = 1"
  by (simp add: utf8_len_def)

lemma blocks_loop_at:
  "ends_line pre \<Longrightarrow>
     list_all2 (block_in (pre @ unlines ls)) (blocks_loop None (byte_length pre) ls) (code_blocks_loop None ls)"
  "ends_line pre \<Longrightarrow> ends_line buf \<Longrightarrow>
     list_all2 (block_in (pre @ buf @ unlines ls))
       (blocks_loop (Some (buf, fs, byte_length pre)) (byte_length (pre @ buf)) ls) (code_blocks_loop (Some buf) ls)"
proof (induction ls arbitrary: pre buf fs)
  case (Cons l ls)
  {
    case 1
    have "ends_line (pre @ l @ [NL])" by simp
    then show ?case
      using Cons(1) [of "pre @ l @ [NL]"] Cons(2) [of "pre @ l @ [NL]" "[]" "byte_length pre"]
      by (simp add: add.assoc)
  next
    case 2
    have after: "ends_line (pre @ buf @ l @ [NL])" "ends_line (buf @ l @ [NL])" by simp_all
    show ?case
    proof (cases "closes_block l")
      case True
      have "block_in (pre @ buf @ unlines (l # ls))
          \<lparr>lb_code = bw_code (split_block_sections buf), lb_expectations = bw_expectations (split_block_sections buf),
           lb_md_start = fs, lb_md_code_start = byte_length pre, lb_md_code_end = byte_length (pre @ buf)\<rparr> buf"
        unfolding block_in_def parts_of_def using 2 True
        by (intro exI [of _ pre] exI [of _ l] exI [of _ "unlines ls"]) simp
      then show ?thesis
        using True Cons(1) [OF after(1)] by (simp add: Let_def add.assoc)
    next
      case False
      then show ?thesis
        using Cons(2) [OF 2(1) after(2)] by (simp add: add.assoc)
    qed
  }
qed simp_all

lemma blocks_at:
  assumes "CR \<notin> set markdown"
  shows "list_all2 (block_at markdown) (extract_blocks markdown) (extract_code_blocks markdown)"
proof -
  obtain e where e: "e = [] \<or> e = [NL]" "markdown @ e = unlines (str_lines markdown)"
    using unlines_lines_from [of "[]" markdown] assms by (auto simp: str_lines_def)
  show ?thesis
    using blocks_loop_at(1) [of "[]" "str_lines markdown"] e(2) block_in_at [OF _ e(1)]
    by (auto simp: extract_blocks_def extract_code_blocks_def elim!: list_all2_mono)
qed

text \<open>
  C38: In a text without carriage returns the blocks are the code blocks of the plain
  extraction, one for one: the bytes between the two offsets of a block are the text of the
  code block, from the line after the opening fence to a closing fence, and its code and
  expectations are the parts of that text.
\<close>

theorem blocks_offsets:
  assumes "CR \<notin> set markdown"
  shows "list_all2 (block_at markdown) (extract_blocks markdown) (extract_code_blocks markdown)"
  using assms by (rule blocks_at)

definition sample_md :: str where
  "sample_md = us ''# a'' @ [NL] @ us ''```tinct'' @ [NL] @ us ''[x: 1]'' @ [NL] @ us ''=== out'' @ [NL] @ us ''1''
     @ [NL] @ us ''```'' @ [NL] @ us ''b''"

theorem blocks_offsets_witness:
  "list_all2 (block_at sample_md) (extract_blocks sample_md) [us ''[x: 1]'' @ [NL] @ us ''=== out'' @ [NL] @ us ''1'' @ [NL]]"
proof -
  have "CR \<notin> set sample_md" by code_simp
  moreover have "extract_code_blocks sample_md = [us ''[x: 1]'' @ [NL] @ us ''=== out'' @ [NL] @ us ''1'' @ [NL]]"
    by (simp add: extract_code_blocks_def str_lines_def sample_md_def opens_block_def closes_block_def
        str_trim_def trim_end_with_def is_whitespace_def strip_cr_def)
  ultimately show ?thesis using blocks_offsets [of sample_md] by metis
qed

section \<open>Offsets\<close>

definition apart :: "literate_block \<Rightarrow> literate_block \<Rightarrow> bool" where
  "apart a b \<longleftrightarrow> lb_md_code_end a < lb_md_code_start b"

definition apart_from :: "nat \<Rightarrow> literate_block list \<Rightarrow> bool" where
  "apart_from n bs \<longleftrightarrow> sorted_wrt apart bs
     \<and> (\<forall>b \<in> set bs. n \<le> lb_md_code_start b \<and> lb_md_code_start b \<le> lb_md_code_end b)"

lemma apart_from_mono: "apart_from n bs \<Longrightarrow> m \<le> n \<Longrightarrow> apart_from m bs"
  unfolding apart_from_def by auto

lemma blocks_loop_apart:
  "apart_from (off + 1) (blocks_loop None off ls)"
  "cs \<le> off \<Longrightarrow> apart_from cs (blocks_loop (Some (buf, fs, cs)) off ls)"
proof (induction ls arbitrary: off buf fs cs)
  case (Cons l ls)
  {
    case 1
    let ?next = "off + byte_length l + 1"
    have "off + 1 \<le> ?next + 1" "off + 1 \<le> ?next" by linarith+
    then show ?case
      using apart_from_mono [OF Cons(1) [of ?next], of "off + 1"]
        apart_from_mono [OF Cons(2) [of ?next ?next "[]" off], of "off + 1"] by (simp split: if_split)
  next
    case 2
    let ?next = "off + byte_length l + 1"
    show ?case
    proof (cases "closes_block l")
      case True
      then show ?thesis
        using Cons(1) [of ?next] 2 by (auto simp: Let_def apart_from_def apart_def)
    next
      case False
      then show ?thesis using Cons(2) [of cs ?next] 2 by simp
    qed
  }
qed (simp_all add: apart_from_def)

lemma extract_blocks_apart: "apart_from 1 (extract_blocks markdown)"
  using blocks_loop_apart(1) [of 0] by (simp add: extract_blocks_def)

definition inside :: "nat \<Rightarrow> literate_block \<Rightarrow> bool" where
  "inside n b \<longleftrightarrow> lb_md_code_start b \<le> n \<and> n < lb_md_code_end b"

lemma md_offset_from_iff:
  assumes "apart_from m bs"
  shows "md_offset_from k bs n = Some (i, r) \<longleftrightarrow>
    (\<exists>j. i = k + j \<and> j < length bs \<and> inside n (bs ! j) \<and> r = n - lb_md_code_start (bs ! j))"
  using assms
proof (induction bs arbitrary: k)
  case (Cons b bs)
  show ?case
  proof (cases "inside n b")
    case True
    have "\<not> inside n (bs ! j)" if "j < length bs" for j
    proof -
      have "lb_md_code_end b < lb_md_code_start (bs ! j)"
        using Cons.prems nth_mem [OF that] by (auto simp: apart_from_def apart_def)
      then show ?thesis using True by (auto simp: inside_def)
    qed
    then have "inside n ((b # bs) ! j) \<longleftrightarrow> j = 0" if "j < length (b # bs)" for j
      using that True by (cases j) auto
    then have "(\<exists>j. i = k + j \<and> j < length (b # bs) \<and> inside n ((b # bs) ! j) \<and> r = n - lb_md_code_start ((b # bs) ! j))
      \<longleftrightarrow> i = k \<and> r = n - lb_md_code_start b"
      by (metis add.right_neutral length_greater_0_conv list.distinct(1) nth_Cons_0)
    moreover have "md_offset_from k (b # bs) n = Some (k, n - lb_md_code_start b)"
      using True by (simp add: inside_def)
    ultimately show ?thesis by auto
  next
    case False
    have "(\<exists>j. i = k + j \<and> j < length (b # bs) \<and> inside n ((b # bs) ! j) \<and> r = n - lb_md_code_start ((b # bs) ! j))
      \<longleftrightarrow> (\<exists>j. i = k + 1 + j \<and> j < length bs \<and> inside n (bs ! j) \<and> r = n - lb_md_code_start (bs ! j))"
      (is "?l \<longleftrightarrow> ?r")
    proof
      assume ?l
      then obtain j where j: "i = k + j" "j < length (b # bs)" "inside n ((b # bs) ! j)"
        "r = n - lb_md_code_start ((b # bs) ! j)" by blast
      with False obtain m where "j = Suc m" by (cases j) auto
      with j show ?r by auto
    next
      assume ?r
      then obtain j where "i = k + 1 + j" "j < length bs" "inside n (bs ! j)" "r = n - lb_md_code_start (bs ! j)"
        by blast
      then show ?l by (intro exI [of _ "Suc j"]) auto
    qed
    moreover have "apart_from m bs" using Cons.prems by (auto simp: apart_from_def)
    moreover have "md_offset_from k (b # bs) n = md_offset_from (k + 1) bs n"
      using False by (auto simp: inside_def)
    ultimately show ?thesis using Cons.IH by simp
  qed
qed simp

text \<open>
  An offset of the document is mapped to a block exactly when it is between the offsets of
  the block, to the distance from the block's first byte; no offset is in two blocks.
\<close>

theorem md_offset_exact:
  "md_offset_to_block (extract_blocks markdown) n = Some (i, r) \<longleftrightarrow>
     i < length (extract_blocks markdown) \<and> inside n (extract_blocks markdown ! i)
     \<and> r = n - lb_md_code_start (extract_blocks markdown ! i)"
  unfolding md_offset_to_block_def
  by (subst md_offset_from_iff [OF extract_blocks_apart]) auto

section \<open>Expected outputs\<close>

definition marks :: "str \<Rightarrow> nat \<Rightarrow> nat list" where
  "marks block n = filter (\<lambda>i. prefix section_mark (drop i block)) [n..<length block]"

definition label_at :: "str \<Rightarrow> nat \<Rightarrow> str" where
  "label_at block i = str_trim (takeWhile (\<lambda>c. c \<noteq> NL) (drop (i + 4) block))"

lemma str_find_first:
  "str_find pat s = Some i \<Longrightarrow> pat \<noteq> [] \<Longrightarrow> prefix pat (drop i s) \<and> (\<forall>j < i. \<not> prefix pat (drop j s)) \<and> i < length s"
proof (induction s arbitrary: i)
  case (Cons c s)
  show ?case
  proof (cases "prefix pat (c # s)")
    case True
    then show ?thesis using Cons.prems by simp
  next
    case False
    then obtain k where k: "str_find pat s = Some k" "i = Suc k" using Cons.prems by auto
    have "\<not> prefix pat (drop j (c # s))" if "j < i" for j
      using that k Cons.IH [OF k(1) Cons.prems(2)] False by (cases j) auto
    then show ?thesis using Cons.IH [OF k(1) Cons.prems(2)] k by auto
  qed
qed auto

lemma str_find_none: "str_find pat s = None \<Longrightarrow> pat \<noteq> [] \<Longrightarrow> \<not> prefix pat (drop j s)"
proof (induction s arbitrary: j)
  case (Cons c s)
  then show ?case by (cases j) (auto split: if_splits)
qed auto

lemma line_end_le: "line_end s \<le> length s"
  unfolding line_end_def using str_find_bound [of "[NL]" s] by (auto split: option.splits)

lemma take_line_end: "take (line_end s) s = takeWhile (\<lambda>c. c \<noteq> NL) s"
proof (induction s)
  case (Cons c s)
  then show ?case by (auto simp: line_end_def split: option.splits)
qed simp

lemma line_end_length: "line_end s = length (takeWhile (\<lambda>c. c \<noteq> NL) s)"
  using take_line_end [of s] line_end_le [of s] by (metis length_take min.absorb2)

lemma section_mark_facts: "length section_mark = 4" "section_mark \<noteq> []" "section_mark ! 0 = NL" "NL \<notin> set (tl section_mark)"
  by (simp_all add: section_mark_def)

lemma mark_nth:
  assumes "prefix section_mark (drop i block)" "k < 4"
  shows "i + k < length block \<and> block ! (i + k) = section_mark ! k"
proof -
  obtain z where z: "drop i block = section_mark @ z" using assms(1) by (auto simp: prefix_def)
  then have "length block - i = 4 + length z" using section_mark_facts(1) by (metis length_append length_drop)
  then have bound: "i + k < length block" using assms(2) by linarith
  then have "block ! (i + k) = drop i block ! k" by simp
  then show ?thesis using z assms(2) section_mark_facts(1) bound by (simp add: nth_append)
qed

lemma no_mark_in_label:
  assumes "i < j" "j < i + 4 + line_end (drop (i + 4) block)" "prefix section_mark (drop i block)"
  shows "\<not> prefix section_mark (drop j block)"
proof
  assume "prefix section_mark (drop j block)"
  then have nl: "j < length block" "block ! j = NL" using mark_nth [of j block 0] section_mark_facts(3) by simp_all
  show False
  proof (cases "j < i + 4")
    case True
    then obtain k where k: "j = i + k" "0 < k" "k < 4" using assms(1) less_imp_add_positive by auto
    then have "section_mark ! k = NL" using mark_nth [OF assms(3) k(3)] nl by simp
    moreover have "section_mark ! k \<in> set (tl section_mark)"
    proof -
      have "k - 1 < length (tl section_mark)" using k section_mark_facts(1) by simp
      then have "tl section_mark ! (k - 1) \<in> set (tl section_mark)" "tl section_mark ! (k - 1) = section_mark ! Suc (k - 1)"
        by (rule nth_mem, rule nth_tl)
      then show ?thesis using k(2) by simp
    qed
    ultimately show ?thesis using section_mark_facts(4) by metis
  next
    case False
    then obtain m where m: "j = i + 4 + m" using le_Suc_ex not_less by blast
    then have "m < length (takeWhile (\<lambda>c. c \<noteq> NL) (drop (i + 4) block))"
      using assms(2) by (simp add: line_end_length)
    then have "takeWhile (\<lambda>c. c \<noteq> NL) (drop (i + 4) block) ! m \<noteq> NL"
        "takeWhile (\<lambda>c. c \<noteq> NL) (drop (i + 4) block) ! m = drop (i + 4) block ! m"
      using nth_mem [of m "takeWhile (\<lambda>c. c \<noteq> NL) (drop (i + 4) block)"]
      by (auto dest: set_takeWhileD simp: takeWhile_nth)
    moreover have "drop (i + 4) block ! m = block ! j" using nl(1) m by simp
    ultimately show ?thesis using nl(2) by simp
  qed
qed

lemma upt_split: "a \<le> b \<Longrightarrow> b \<le> c \<Longrightarrow> [a..<c] = [a..<b] @ [b..<c]"
  by (metis le_Suc_ex upt_add_eq_append)

lemma marks_step:
  assumes "str_find section_mark (drop n block) = Some pos"
  shows "marks block n = (n + pos) # marks block (n + pos + 4 + line_end (drop (n + pos + 4) block))"
proof -
  let ?i = "n + pos" and ?next = "n + pos + 4 + line_end (drop (n + pos + 4) block)"
  have first: "prefix section_mark (drop ?i block)" "?i < length block"
    "\<And>j. n \<le> j \<Longrightarrow> j < ?i \<Longrightarrow> \<not> prefix section_mark (drop j block)"
  proof -
    have all: "prefix section_mark (drop pos (drop n block)) \<and> (\<forall>j < pos. \<not> prefix section_mark (drop j (drop n block)))
        \<and> pos < length (drop n block)"
      using str_find_first [OF assms section_mark_facts(2)] .
    then show "prefix section_mark (drop ?i block)" by (simp add: add.commute)
    have "pos < length block - n" using all by simp
    then show "?i < length block" by linarith
    show "\<not> prefix section_mark (drop j block)" if between: "n \<le> j" "j < ?i" for j
    proof -
      obtain k where k: "j = k + n" using between(1) by (metis le_add_diff_inverse2)
      then have "k < pos" using between(2) by simp
      then have "\<not> prefix section_mark (drop k (drop n block))" using all by blast
      then show ?thesis unfolding k drop_drop .
    qed
  qed
  have bound: "?next \<le> length block"
  proof -
    have "?i + 3 < length block" using mark_nth [OF first(1), of 3] by simp
    moreover have "line_end (drop (?i + 4) block) \<le> length block - (?i + 4)"
      using line_end_le [of "drop (?i + 4) block"] by simp
    ultimately show ?thesis by linarith
  qed
  have "[n..<length block] = [n..<?i] @ [?i] @ [Suc ?i..<?next] @ [?next..<length block]"
  proof -
    have "[n..<length block] = [n..<?i] @ [?i..<length block]"
      using first(2) upt_split [of n ?i "length block"] by simp
    moreover have "[?i..<length block] = ?i # [Suc ?i..<length block]" using first(2) upt_conv_Cons by blast
    moreover have "[Suc ?i..<length block] = [Suc ?i..<?next] @ [?next..<length block]"
      using bound upt_split [of "Suc ?i" ?next "length block"] by simp
    ultimately show ?thesis by simp
  qed
  moreover have "filter (\<lambda>j. prefix section_mark (drop j block)) [n..<?i] = []"
    using first(3) by (auto simp: filter_empty_conv)
  moreover have "filter (\<lambda>j. prefix section_mark (drop j block)) [Suc ?i..<?next] = []"
    using no_mark_in_label [OF _ _ first(1)] by (auto simp: filter_empty_conv)
  ultimately show ?thesis unfolding marks_def using first(1) by simp
qed

lemma sections_at: "find_sections block n = map (\<lambda>i. (i, label_at block i)) (marks block n)"
proof (induction "length block - n" arbitrary: n rule: less_induct)
  case less
  show ?case
  proof (cases "str_find section_mark (drop n block)")
    case None
    then have "\<not> prefix section_mark (drop j block)" if "n \<le> j" for j
      using str_find_none [OF None section_mark_facts(2), of "j - n"] that by simp
    then have "marks block n = []" by (auto simp: marks_def filter_empty_conv)
    then show ?thesis using None by (simp add: find_sections.simps [of block n])
  next
    case (Some pos)
    let ?next = "n + pos + 4 + line_end (drop (n + pos + 4) block)"
    have "pos < length (drop n block)" using str_find_first [OF Some section_mark_facts(2)] by blast
    then have "find_sections block ?next = map (\<lambda>i. (i, label_at block i)) (marks block ?next)"
      by (intro less) simp
    then show ?thesis
      using Some marks_step [OF Some]
      by (simp add: find_sections.simps [of block n] Let_def label_at_def take_line_end)
  qed
qed

lemma sections_code:
  "bw_code (split_block_sections block) = (case marks block 0 of [] \<Rightarrow> block | i # _ \<Rightarrow> take (i + 1) block)"
  by (auto simp: split_block_sections_def sections_at split: list.split)


section \<open>Lines of a block and of the document\<close>

lemma split_code_prefix:
  assumes "ends_line raw"
  shows "\<exists>r. raw = bw_code (split_block_sections raw) @ r \<and> ends_line (bw_code (split_block_sections raw))"
proof (cases "marks raw 0")
  case Nil
  then show ?thesis using sections_code [of raw] assms by simp
next
  case (Cons i later)
  then have "i \<in> set (marks raw 0)" by simp
  then have "prefix section_mark (drop i raw)" "i < length raw" by (auto simp: marks_def)
  then have "take (i + 1) raw = take i raw @ [NL]"
    using mark_nth [of i raw 0] section_mark_facts(3) by (simp add: take_Suc_conv_app_nth)
  then have "ends_line (take (i + 1) raw)" by simp
  moreover have "raw = take (i + 1) raw @ drop (i + 1) raw" by simp
  moreover have "bw_code (split_block_sections raw) = take (i + 1) raw" using sections_code [of raw] Cons by simp
  ultimately show ?thesis by metis
qed

lemma line_in_document:
  assumes "ends_line p" "ends_line c" "k < length (str_lines c)"
  shows "str_lines (p @ c @ r) ! (k + newlines p) = str_lines c ! k"
  using assms length_str_lines [of p] by (simp add: str_lines_append nth_append)

text \<open>
  C39: In a text without carriage returns the span of a block is mapped without a panic, and the
  line it is mapped to is the line of the document with the same text.
\<close>

theorem span_lines:
  assumes "CR \<notin> set markdown" "i < length (extract_blocks markdown)"
    and "1 \<le> sp_start_line sp" "sp_start_line sp \<le> length (str_lines (lb_code (extract_blocks markdown ! i)))"
  shows "\<exists>sp'. block_span_to_md (extract_blocks markdown) i sp markdown = Some sp'
    \<and> sp_start_col sp' = sp_start_col sp \<and> sp_end_col sp' = sp_end_col sp
    \<and> sp_end_line sp' + sp_start_line sp = sp_end_line sp + sp_start_line sp'
    \<and> str_lines markdown ! (sp_start_line sp' - 1) =
        str_lines (lb_code (extract_blocks markdown ! i)) ! (sp_start_line sp - 1)"
proof -
  let ?b = "extract_blocks markdown ! i" and ?raw = "extract_code_blocks markdown ! i"
  have "block_at markdown ?b ?raw"
    using blocks_at [OF assms(1)] assms(2) by (rule list_all2_nthD)
  then obtain p rest where doc: "markdown = p @ ?raw @ rest" and parts: "parts_of ?b p ?raw"
    unfolding block_at_def by blast
  obtain r where r: "?raw = lb_code ?b @ r" "ends_line (lb_code ?b)"
    using split_code_prefix [of ?raw] parts unfolding parts_of_def by metis
  have "byte_prefix (lb_md_code_start ?b) markdown = Some p"
    using byte_prefix_append [of p] parts doc unfolding parts_of_def by metis
  then have span: "block_span_to_md (extract_blocks markdown) i sp markdown =
      Some (span_new (sp_start_line sp + newlines p) (sp_start_col sp) (sp_end_line sp + newlines p)
        (sp_end_col sp) (sp_file sp))"
    using assms(2) by (simp add: block_span_to_md_def nth_opt_def)
  have "str_lines (p @ lb_code ?b @ r @ rest) ! (sp_start_line sp - 1 + newlines p) = str_lines (lb_code ?b) ! (sp_start_line sp - 1)"
    using line_in_document [of p "lb_code ?b" "sp_start_line sp - 1"] parts r(2) assms(3,4)
    unfolding parts_of_def by simp
  then have "str_lines markdown ! (sp_start_line sp + newlines p - 1) = str_lines (lb_code ?b) ! (sp_start_line sp - 1)"
    using doc r(1) assms(3) by simp
  then show ?thesis unfolding span by (simp add: span_new_def)
qed

lemma sample_blocks:
  "extract_blocks sample_md = [\<lparr>lb_code = us ''[x: 1]'' @ [NL],
     lb_expectations = \<lparr>be_out = Some (us ''1''), be_warn = None, be_error = None, be_info = None\<rparr>,
     lb_md_start = 4, lb_md_code_start = 13, lb_md_code_end = 30\<rparr>]"
  by (simp add: extract_blocks_def str_lines_def sample_md_def opens_block_def closes_block_def
      str_trim_def trim_end_with_def is_whitespace_def strip_cr_def utf8_len_def Let_def split_block_sections_def
      find_sections.simps section_mark_def line_end_def some_text_def section_content_def set_expectation_def)

theorem span_lines_witness:
  "\<exists>sp'. block_span_to_md (extract_blocks sample_md) 0 (span_new 1 1 1 4 []) sample_md = Some sp'
    \<and> str_lines sample_md ! (sp_start_line sp' - 1) = us ''[x: 1]''"
proof -
  let ?sp = "span_new 1 1 1 4 []"
  have "CR \<notin> set sample_md" by code_simp
  moreover have "str_lines (lb_code (extract_blocks sample_md ! 0)) = [us ''[x: 1]'']"
    by (simp add: sample_blocks str_lines_def strip_cr_def)
  ultimately show ?thesis
    using span_lines [of sample_md 0 ?sp] by (simp add: sample_blocks span_new_def) (metis)
qed

section \<open>Carriage returns\<close>

text \<open>
  The lines of a text lose their carriage returns, and the offsets count one byte for a line
  end: each such line shifts the offsets by one byte. The start of the code is then before the
  end of the fence, and the slice of the document can end inside a character.
\<close>

lemma carriage_return_offsets:
  defines "md \<equiv> us ''```tinct'' @ [CR, NL] @ us ''a'' @ [CR, NL] @ us ''```''"
  shows "map lb_md_code_start (extract_blocks md) = [9]" "byte_prefix 9 md = Some (us ''```tinct'' @ [CR])"
  unfolding md_def
  by (simp_all add: extract_blocks_def str_lines_def opens_block_def closes_block_def
      str_trim_def trim_end_with_def is_whitespace_def strip_cr_def utf8_len_def Let_def)

end
