(* ===== verification/Spec2Isabelle.thy ===== *)
theory Spec2Isabelle
  imports Token_Roundtrip Lexer_Properties Scope_Properties Coverage_Correct Builder_Steps
    Diagnostics Thunk_Progress Thunk_Cycles Subtyping_Gaps Literate_Properties
begin

text \<open>
  A model of the core of tinct, a lazy functional language written in Rust.

  The program reads a text, splits it into tokens (\<^verbatim>\<open>src/lexer.rs\<close>), parses and
  desugars it, resolves names against chains of scope frames (\<^verbatim>\<open>src/symbol_table.rs\<close>),
  checks types and the coverage of matches (\<^verbatim>\<open>src/coverage.rs\<close>), and evaluates core
  expressions by forcing thunks (\<^verbatim>\<open>src/value.rs\<close>, \<^verbatim>\<open>src/eval.rs\<close>,
  \<^verbatim>\<open>src/eval_materialize.rs\<close>), which may run on several tasks. Errors are diagnostics
  (\<^verbatim>\<open>src/error.rs\<close>).
\<close>

end
